theory Spec2Isabelle
  imports Main "HOL-Library.Sublist" "HOL-Library.AList"
begin

section \<open>Values and strings of the host language\<close>

text \<open>
  The pipeline of \<^verbatim>\<open>src/publish.ts\<close> runs on untyped catalog entries (the page map is
  a \<^verbatim>\<open>Map<string, any>\<close>), and the code itself tests
  \<^verbatim>\<open>typeof page.name !== "string"\<close>.  The primitive values such a field can hold
  are modelled by \<open>jsval\<close>; objects are left out.
\<close>

datatype jsval = JString string | JNumber int | JBoolean bool | JNull | JUndefined

datatype error = TypeError | ReadError

text \<open>Truthiness of a primitive value, as \<^verbatim>\<open>if (v)\<close> tests it.\<close>

fun truthy :: "jsval \<Rightarrow> bool" where
  "truthy (JString s) = (s \<noteq> [])"
| "truthy (JNumber n) = (n \<noteq> 0)"
| "truthy (JBoolean b) = b"
| "truthy JNull = False"
| "truthy JUndefined = False"

text \<open>\<^verbatim>\<open>s.startsWith(p)\<close>, \<^verbatim>\<open>s.includes(t)\<close> / \<^verbatim>\<open>s.indexOf(t) !== -1\<close>
  and \<^verbatim>\<open>s.split("@")[0]\<close>.\<close>

definition startsWith :: "string \<Rightarrow> string \<Rightarrow> bool" where
  "startsWith s p = prefix p s"

fun includesStr :: "string \<Rightarrow> string \<Rightarrow> bool" where
  "includesStr [] t = (t = [])"
| "includesStr (c # cs) t = (prefix t (c # cs) \<or> includesStr cs t)"

definition splitFirst :: "char \<Rightarrow> string \<Rightarrow> string" where
  "splitFirst sep s = takeWhile (\<lambda>c. c \<noteq> sep) s"

section \<open>The parse tree and its helpers\<close>

text \<open>
  \<^verbatim>\<open>ParseTree\<close> is imported from \<^verbatim>\<open>$sb/lib/tree.ts\<close>: a node has an optional type
  (absent on a text node), an optional text and an optional list of children.  These are
  the three fields \<^verbatim>\<open>src/publish.ts\<close> reads and writes.
\<close>

datatype ParseTree =
  ParseTree (ptype: "string option") (ptext: "string option") (pchildren: "ParseTree list option")

text \<open>The object literal \<^verbatim>\<open>{ text: t }\<close>.\<close>

definition textNode :: "string \<Rightarrow> ParseTree" where
  "textNode t = ParseTree None (Some t) None"

text \<open>The three results of the callback given to \<^verbatim>\<open>replaceNodesMatching\<close>:
  \<^verbatim>\<open>undefined\<close> (falling off the end), \<^verbatim>\<open>null\<close>, or a replacement node.\<close>

datatype outcome = Undefined | Null | Subst ParseTree

text \<open>
  Modelled from the spec: \<^verbatim>\<open>replaceNodesMatching\<close> of \<^verbatim>\<open>$sb/lib/tree.ts\<close>, which is
  not among the sources.  The spec describes a depth-first traversal with three outcomes
  per visited node: leave as is, delete this node from the tree, replace this node with a
  literal text node.  The caller in \<^verbatim>\<open>cleanMarkdown\<close> discards the result of the call
  and goes on with the same \<^verbatim>\<open>mdTree\<close> object, so the rewrite happens in place, inside the
  children lists: the root object itself can be neither deleted nor replaced and is not
  submitted to the callback.  A node that is left as is has its own children rewritten; a
  deleted or replaced node is not entered.  An exception of the callback ends the
  traversal.  The in-place update is made explicit by returning the tree after the call.
\<close>

fun replaceNodesMatching :: "(ParseTree \<Rightarrow> error + outcome) \<Rightarrow> ParseTree \<Rightarrow> error + ParseTree"
  and replaceChildren :: "(ParseTree \<Rightarrow> error + outcome) \<Rightarrow> ParseTree list \<Rightarrow> error + ParseTree list"
where
  "replaceNodesMatching f (ParseTree ty tx None) = Inr (ParseTree ty tx None)"
| "replaceNodesMatching f (ParseTree ty tx (Some cs)) =
     (case replaceChildren f cs of
        Inl e \<Rightarrow> Inl e
      | Inr cs' \<Rightarrow> Inr (ParseTree ty tx (Some cs')))"
| "replaceChildren f [] = Inr []"
| "replaceChildren f (c # cs) =
     (case f c of
        Inl e \<Rightarrow> Inl e
      | Inr Undefined \<Rightarrow>
          (case replaceNodesMatching f c of
             Inl e \<Rightarrow> Inl e
           | Inr c' \<Rightarrow>
               (case replaceChildren f cs of Inl e \<Rightarrow> Inl e | Inr cs' \<Rightarrow> Inr (c' # cs')))
      | Inr Null \<Rightarrow> replaceChildren f cs
      | Inr (Subst s) \<Rightarrow>
          (case replaceChildren f cs of Inl e \<Rightarrow> Inl e | Inr cs' \<Rightarrow> Inr (s # cs')))"

text \<open>All nodes of a tree in depth-first order, the root first; and the nodes strictly
  below the root.\<close>

fun nodes :: "ParseTree \<Rightarrow> ParseTree list" where
  "nodes (ParseTree ty tx cs) =
     ParseTree ty tx cs # (case cs of None \<Rightarrow> [] | Some ts \<Rightarrow> concat (map nodes ts))"

definition nodesBelow :: "ParseTree \<Rightarrow> ParseTree list" where
  "nodesBelow t = (case pchildren t of None \<Rightarrow> [] | Some ts \<Rightarrow> concat (map nodes ts))"


text \<open>
  Modelled from the spec: \<^verbatim>\<open>collectNodesOfType\<close> of \<^verbatim>\<open>$sb/lib/tree.ts\<close>, which is
  not among the sources.  The spec says that every node of the given type is collected,
  in traversal order.
\<close>

definition collectNodesOfType :: "ParseTree \<Rightarrow> string \<Rightarrow> ParseTree list" where
  "collectNodesOfType tree nodeType = filter (\<lambda>n. ptype n = Some nodeType) (nodes tree)"

section \<open>Configuration\<close>

text \<open>\<^verbatim>\<open>PublishConfig\<close>: every field is optional.\<close>

record PublishConfig =
  cfg_title :: "string option"
  cfg_indexPage :: "string option"
  cfg_removeHashtags :: "bool option"
  cfg_publishAll :: "bool option"
  cfg_tags :: "string list option"
  cfg_prefixes :: "string list option"
  cfg_template :: "string option"
  cfg_generateIndexJson :: "bool option"

definition defaultPublishConfig :: PublishConfig where
  "defaultPublishConfig =
     \<lparr>cfg_title = None, cfg_indexPage = None, cfg_removeHashtags = Some True,
      cfg_publishAll = None, cfg_tags = None, cfg_prefixes = None, cfg_template = None,
      cfg_generateIndexJson = Some True\<rparr>"

text \<open>Truthiness of an optional flag.\<close>

definition flagSet :: "bool option \<Rightarrow> bool" where
  "flagSet b = (b = Some True)"

text \<open>The object \<^verbatim>\<open>readYamlPage\<close> returns.  A key can be absent (\<open>None\<close>), present
  with \<^verbatim>\<open>null\<close> or \<^verbatim>\<open>undefined\<close> (\<open>Some None\<close>), or present with a value.\<close>

record LoadedConfig =
  lc_title :: "string option option"
  lc_indexPage :: "string option option"
  lc_removeHashtags :: "bool option option"
  lc_publishAll :: "bool option option"
  lc_tags :: "string list option option"
  lc_prefixes :: "string list option option"
  lc_template :: "string option option"
  lc_generateIndexJson :: "bool option option"

text \<open>The object spread \<^verbatim>\<open>{...publishConfig, ...loadedPublishConfig}\<close>: every key that
  is present in the loaded configuration replaces the default, also when its value is
  \<^verbatim>\<open>null\<close> or \<^verbatim>\<open>undefined\<close>.\<close>

definition spread :: "'a option option \<Rightarrow> 'a option \<Rightarrow> 'a option" where
  "spread loaded dflt = (case loaded of None \<Rightarrow> dflt | Some v \<Rightarrow> v)"

definition mergeConfig :: "PublishConfig \<Rightarrow> LoadedConfig \<Rightarrow> PublishConfig" where
  "mergeConfig dflt loaded =
     \<lparr>cfg_title = spread (lc_title loaded) (cfg_title dflt),
      cfg_indexPage = spread (lc_indexPage loaded) (cfg_indexPage dflt),
      cfg_removeHashtags = spread (lc_removeHashtags loaded) (cfg_removeHashtags dflt),
      cfg_publishAll = spread (lc_publishAll loaded) (cfg_publishAll dflt),
      cfg_tags = spread (lc_tags loaded) (cfg_tags dflt),
      cfg_prefixes = spread (lc_prefixes loaded) (cfg_prefixes dflt),
      cfg_template = spread (lc_template loaded) (cfg_template dflt),
      cfg_generateIndexJson = spread (lc_generateIndexJson loaded) (cfg_generateIndexJson dflt)\<rparr>"

section \<open>The document transformer\<close>

text \<open>\<^verbatim>\<open>n.children![1].children![0].text!\<close>: every missing piece ends in a
  \<^verbatim>\<open>TypeError\<close>, at the latest when \<^verbatim>\<open>page.includes\<close> is called on \<^verbatim>\<open>undefined\<close>.\<close>

definition wikiLinkPage :: "ParseTree \<Rightarrow> error + string" where
  "wikiLinkPage n =
     (case pchildren n of
        None \<Rightarrow> Inl TypeError
      | Some cs \<Rightarrow>
          (case cs of
             c0 # c1 # rest \<Rightarrow>
               (case pchildren c1 of
                  None \<Rightarrow> Inl TypeError
                | Some gs \<Rightarrow>
                    (case gs of
                       [] \<Rightarrow> Inl TypeError
                     | g # gs' \<Rightarrow>
                         (case ptext g of None \<Rightarrow> Inl TypeError | Some page \<Rightarrow> Inr page)))
           | _ \<Rightarrow> Inl TypeError))"

text \<open>The page name a wiki link is checked under: the part before the first \<open>@\<close>.\<close>

definition barePage :: "string \<Rightarrow> string" where
  "barePage page = (if CHR ''@'' \<in> set page then splitFirst (CHR ''@'') page else page)"

text \<open>The statements of the callback after the wiki link test (lines 236 to 244).\<close>

definition removalRules :: "PublishConfig \<Rightarrow> ParseTree \<Rightarrow> outcome" where
  "removalRules publishConfig n =
     (if ptype n = Some ''CommentBlock'' \<or> ptype n = Some ''Comment'' then Null
      else if ptype n = Some ''Hashtag'' \<and> flagSet (cfg_removeHashtags publishConfig) then Null
      else Undefined)"

text \<open>The callback that \<^verbatim>\<open>cleanMarkdown\<close> hands to \<^verbatim>\<open>replaceNodesMatching\<close>.\<close>

definition cleanNode :: "PublishConfig \<Rightarrow> jsval list \<Rightarrow> ParseTree \<Rightarrow> error + outcome" where
  "cleanNode publishConfig validPages n =
     (if ptype n = Some ''WikiLink'' then
        (case wikiLinkPage n of
           Inl e \<Rightarrow> Inl e
         | Inr page0 \<Rightarrow>
             (let page = barePage page0 in
              if JString page \<notin> set validPages
              then Inr (Subst (textNode (''_'' @ page @ ''_'')))
              else Inr (removalRules publishConfig n)))
      else Inr (removalRules publishConfig n))"

text \<open>The rewrite pass of \<^verbatim>\<open>cleanMarkdown\<close>: the tree as the call leaves it.\<close>

definition cleanTree :: "PublishConfig \<Rightarrow> jsval list \<Rightarrow> ParseTree \<Rightarrow> error + ParseTree" where
  "cleanTree publishConfig validPages mdTree =
     replaceNodesMatching (cleanNode publishConfig validPages) mdTree"

text \<open>\<^verbatim>\<open>String.prototype.trim\<close> on the white space that fits a byte.\<close>

definition isSpace :: "char \<Rightarrow> bool" where
  "isSpace c = (of_char c \<in> {9, 10, 11, 12, 13, 32, 160 :: nat})"

definition trim :: "string \<Rightarrow> string" where
  "trim s = rev (dropWhile isSpace (rev (dropWhile isSpace s)))"

text \<open>\<^verbatim>\<open>cleanMarkdown\<close> returns the trimmed text of the rewritten tree; the second
  component is \<^verbatim>\<open>mdTree\<close> as the caller finds it afterwards.  \<^verbatim>\<open>renderToText\<close> is a
  helper of \<^verbatim>\<open>$sb/lib/tree.ts\<close> and stays a parameter.\<close>

definition cleanMarkdown ::
  "(ParseTree \<Rightarrow> string) \<Rightarrow> ParseTree \<Rightarrow> PublishConfig \<Rightarrow> jsval list \<Rightarrow> error + (string \<times> ParseTree)"
where
  "cleanMarkdown renderToText mdTree publishConfig validPages =
     (case cleanTree publishConfig validPages mdTree of
        Inl e \<Rightarrow> Inl e
      | Inr mdTree' \<Rightarrow> Inr (trim (renderToText mdTree'), mdTree'))"

text \<open>\<^verbatim>\<open>node.children![0].text!\<close> of a URL node, and \<^verbatim>\<open>collectAttachments\<close>.\<close>

definition urlText :: "ParseTree \<Rightarrow> error + string" where
  "urlText node =
     (case pchildren node of
        None \<Rightarrow> Inl TypeError
      | Some cs \<Rightarrow>
          (case cs of
             [] \<Rightarrow> Inl TypeError
           | c # rest \<Rightarrow> (case ptext c of None \<Rightarrow> Inl TypeError | Some url \<Rightarrow> Inr url)))"

fun collectUrls :: "ParseTree list \<Rightarrow> string list \<Rightarrow> error + string list" where
  "collectUrls [] attachments = Inr attachments"
| "collectUrls (node # others) attachments =
     (case urlText node of
        Inl e \<Rightarrow> Inl e
      | Inr url \<Rightarrow>
          collectUrls others (if \<not> includesStr url ''://'' then attachments @ [url] else attachments))"

definition collectAttachments :: "ParseTree \<Rightarrow> error + string list" where
  "collectAttachments tree = collectUrls (collectNodesOfType tree ''URL'') []"

section \<open>The page catalog and the page selector\<close>

text \<open>A share marker is a single value or a sequence of values; a catalog entry has a
  name (any value, see the sanity check), optional tags and an optional share marker.\<close>

datatype share = ShareScalar jsval | ShareArray "jsval list"

record PageMeta =
  pm_name :: jsval
  pm_tags :: "string list option"
  pm_share :: "share option"

text \<open>\<^verbatim>\<open>Set.prototype.add\<close> on a set kept in insertion order.\<close>

definition setAdd :: "'a list \<Rightarrow> 'a \<Rightarrow> 'a list" where
  "setAdd s x = (if x \<in> set s then s else s @ [x])"

text \<open>\<^verbatim>\<open>new Map(allPages.map((pm) => [pm.name, pm]))\<close> and
  \<^verbatim>\<open>[...allPageMap.values()]\<close>: a later entry of a name replaces the earlier one at the
  earlier one's place.\<close>

definition allPageMap :: "PageMeta list \<Rightarrow> (jsval \<times> PageMeta) list" where
  "allPageMap allPages = foldl (\<lambda>m pm. AList.update (pm_name pm) pm m) [] allPages"

definition mapValues :: "('k \<times> 'v) list \<Rightarrow> 'v list" where
  "mapValues m = map snd m"

text \<open>Lines 108 to 114: the tag rule.\<close>

definition tagRule :: "PublishConfig \<Rightarrow> PageMeta \<Rightarrow> jsval list \<Rightarrow> jsval list" where
  "tagRule publishConfig page publishedPages =
     (case cfg_tags publishConfig of
        None \<Rightarrow> publishedPages
      | Some configTags \<Rightarrow>
          (case pm_tags page of
             None \<Rightarrow> publishedPages
           | Some pageTags \<Rightarrow>
               foldl (\<lambda>acc tag. if tag \<in> set configTags then setAdd acc (pm_name page) else acc)
                 publishedPages pageTags))"

text \<open>Lines 119 to 125: the prefix rule, reached with a name that is a string.\<close>

definition prefixRule :: "PublishConfig \<Rightarrow> string \<Rightarrow> jsval list \<Rightarrow> jsval list" where
  "prefixRule publishConfig name publishedPages =
     (case cfg_prefixes publishConfig of
        None \<Rightarrow> publishedPages
      | Some configPrefixes \<Rightarrow>
          foldl (\<lambda>acc pfx. if startsWith name pfx then setAdd acc (JString name) else acc)
            publishedPages configPrefixes)"

text \<open>Lines 127 to 134: the share rule.  A truthy marker that is not an array is
  replaced, in the catalog entry itself, by a one-element array.\<close>

fun shareTruthy :: "share \<Rightarrow> bool" where
  "shareTruthy (ShareScalar v) = truthy v"
| "shareTruthy (ShareArray vs) = True"

fun shareAsArray :: "share \<Rightarrow> jsval list" where
  "shareAsArray (ShareScalar v) = [v]"
| "shareAsArray (ShareArray vs) = vs"

definition shareRule :: "PageMeta \<Rightarrow> jsval list \<Rightarrow> PageMeta \<times> jsval list" where
  "shareRule page publishedPages =
     (case pm_share page of
        None \<Rightarrow> (page, publishedPages)
      | Some sh \<Rightarrow>
          if shareTruthy sh then
            (let page' = (case sh of
                            ShareScalar v \<Rightarrow> page\<lparr>pm_share := Some (ShareArray [v])\<rparr>
                          | ShareArray vs \<Rightarrow> page)
             in (page',
                 if JString ''pub'' \<in> set (shareAsArray sh)
                 then setAdd publishedPages (pm_name page) else publishedPages))
          else (page, publishedPages))"

text \<open>One round of the loop of lines 107 to 135: the entry after the round and the set
  after the round.\<close>

definition selectPage :: "PublishConfig \<Rightarrow> PageMeta \<Rightarrow> jsval list \<Rightarrow> PageMeta \<times> jsval list" where
  "selectPage publishConfig page publishedPages =
     (let tagged = tagRule publishConfig page publishedPages in
      case pm_name page of
        JString name \<Rightarrow> shareRule page (prefixRule publishConfig name tagged)
      | _ \<Rightarrow> (page, tagged))"

fun selectLoop :: "PublishConfig \<Rightarrow> PageMeta list \<Rightarrow> jsval list \<Rightarrow> PageMeta list \<times> jsval list" where
  "selectLoop publishConfig [] publishedPages = ([], publishedPages)"
| "selectLoop publishConfig (page # rest) publishedPages =
     (case selectPage publishConfig page publishedPages of
        (page', published') \<Rightarrow>
          (case selectLoop publishConfig rest published' of
             (rest', published'') \<Rightarrow> (page' # rest', published'')))"

text \<open>Lines 103 to 136: the catalog entries as selection leaves them, and the published
  set in insertion order.\<close>

definition selectPages :: "PublishConfig \<Rightarrow> PageMeta list \<Rightarrow> PageMeta list \<times> jsval list" where
  "selectPages publishConfig allPages =
     (if flagSet (cfg_publishAll publishConfig)
      then (allPages, foldl setAdd [] (map pm_name allPages))
      else selectLoop publishConfig allPages [])"

section \<open>Storage\<close>

type_synonym bytes = string

record FileMeta =
  fm_name :: string
  fm_size :: nat
  fm_contentType :: string
  fm_lastModified :: nat
  fm_perm :: string

record StoredFile =
  sf_data :: bytes
  sf_contentType :: string
  sf_lastModified :: nat
  sf_perm :: string

text \<open>
  Modelled from the spec: the storage layer behind the \<^verbatim>\<open>space\<close> syscalls, an external
  collaborator of which the spec gives the contract (list, read, write and delete).  It
  is a plain store: the catalog listing, the page texts, and the attachments by name, in
  listing order.  A write under an existing name replaces the file in place, a write
  under a new name adds it at the end, a read of a missing name fails.
\<close>

record Space =
  sp_pages :: "PageMeta list"
  sp_pageText :: "jsval \<Rightarrow> string option"
  sp_attachments :: "(string \<times> StoredFile) list"

text \<open>The collaborators the pipeline calls and does not define.  \<open>storedAs\<close> is the file
  the storage layer records when an attachment is written under a name; \<open>bigNumberText\<close>
  is the platform's text of a number whose magnitude is at least \<open>10^21\<close>, which is in
  exponent form.\<close>

record externals =
  readYamlPage :: "string \<Rightarrow> error + LoadedConfig"
  parseMarkdown :: "string \<Rightarrow> ParseTree"
  renderToText :: "ParseTree \<Rightarrow> string"
  renderMarkdownToHtml :: "ParseTree \<Rightarrow> string"
  readAsset :: "string \<Rightarrow> string"
  readCodeBlockPage :: "string \<Rightarrow> error + string"
  handlebarsCompile :: "string \<Rightarrow> jsval \<times> PublishConfig \<times> string \<Rightarrow> string"
  textEncode :: "string \<Rightarrow> bytes"
  storedAs :: "string \<Rightarrow> bytes \<Rightarrow> StoredFile"
  bigNumberText :: "int \<Rightarrow> string"

definition listPages :: "Space \<Rightarrow> PageMeta list" where
  "listPages s = sp_pages s"

definition readPage :: "Space \<Rightarrow> jsval \<Rightarrow> error + string" where
  "readPage s pageName = (case sp_pageText s pageName of None \<Rightarrow> Inl ReadError | Some t \<Rightarrow> Inr t)"

definition fileMeta :: "string \<times> StoredFile \<Rightarrow> FileMeta" where
  "fileMeta e =
     \<lparr>fm_name = fst e, fm_size = length (sf_data (snd e)),
      fm_contentType = sf_contentType (snd e), fm_lastModified = sf_lastModified (snd e),
      fm_perm = sf_perm (snd e)\<rparr>"

definition listAttachments :: "Space \<Rightarrow> FileMeta list" where
  "listAttachments s = map fileMeta (sp_attachments s)"

definition readAttachment :: "Space \<Rightarrow> string \<Rightarrow> error + bytes" where
  "readAttachment s name =
     (case map_of (sp_attachments s) name of None \<Rightarrow> Inl ReadError | Some f \<Rightarrow> Inr (sf_data f))"

definition writeAttachment :: "externals \<Rightarrow> Space \<Rightarrow> string \<Rightarrow> bytes \<Rightarrow> Space" where
  "writeAttachment ext s name data =
     s\<lparr>sp_attachments := AList.update name ((storedAs ext name data)\<lparr>sf_data := data\<rparr>) (sp_attachments s)\<rparr>"

definition deleteAttachment :: "Space \<Rightarrow> string \<Rightarrow> Space" where
  "deleteAttachment s name = s\<lparr>sp_attachments := AList.delete name (sp_attachments s)\<rparr>"

section \<open>Numbers and values as text\<close>

definition digitChar :: "nat \<Rightarrow> char" where
  "digitChar d = char_of (48 + d)"

function showNat :: "nat \<Rightarrow> string" where
  "showNat n = (if n < 10 then [digitChar n] else showNat (n div 10) @ [digitChar (n mod 10)])"
  by pat_completeness auto
termination
  by (relation "measure id") auto

declare showNat.simps [simp del]

definition showInt :: "int \<Rightarrow> string" where
  "showInt i = (if i < 0 then ''-'' @ showNat (nat (- i)) else showNat (nat i))"

text \<open>A value inside a template literal, as in \<^verbatim>\<open>`${destDir}/${page}.md`\<close>.  An
  integral number below \<open>10^21\<close> in magnitude prints all its digits; the text of a larger
  one is the platform's.\<close>

fun toStr :: "(int \<Rightarrow> string) \<Rightarrow> jsval \<Rightarrow> string" where
  "toStr big (JString s) = s"
| "toStr big (JNumber n) = (if \<bar>n\<bar> < 10 ^ 21 then showInt n else big n)"
| "toStr big (JBoolean b) = (if b then ''true'' else ''false'')"
| "toStr big JNull = ''null''"
| "toStr big JUndefined = ''undefined''"

section \<open>The site generator\<close>

text \<open>Lines 50 to 58: one round of the attachment loop.  A failed read is caught and
  the attachment is skipped.\<close>

definition copyAttachment :: "externals \<Rightarrow> string \<Rightarrow> Space \<Rightarrow> string \<Rightarrow> Space" where
  "copyAttachment ext dest s attachment =
     (case readAttachment s attachment of
        Inl e \<Rightarrow> s
      | Inr attachmentData \<Rightarrow> writeAttachment ext s (dest @ ''/'' @ attachment) attachmentData)"

definition copyAttachments :: "externals \<Rightarrow> string \<Rightarrow> Space \<Rightarrow> string list \<Rightarrow> Space" where
  "copyAttachments ext dest s attachments = foldl (copyAttachment ext dest) s attachments"

text \<open>\<^verbatim>\<open>generatePage\<close>.  \<^verbatim>\<open>cleanMarkdown\<close> has rewritten \<^verbatim>\<open>mdTree\<close> in place before
  \<^verbatim>\<open>collectAttachments\<close> and \<^verbatim>\<open>renderMarkdownToHtml\<close> read it.\<close>

definition generatePage ::
  "externals \<Rightarrow> Space \<Rightarrow> jsval \<Rightarrow> string \<Rightarrow> string \<Rightarrow> jsval list \<Rightarrow> PublishConfig \<Rightarrow> string \<Rightarrow>
   (jsval \<times> PublishConfig \<times> string \<Rightarrow> string) \<Rightarrow> error + Space"
where
  "generatePage ext s pageName htmlPath mdPath publishedPages publishConfig dest template =
     (case readPage s pageName of
        Inl e \<Rightarrow> Inl e
      | Inr text \<Rightarrow>
          (case cleanMarkdown (renderToText ext) (parseMarkdown ext text) publishConfig publishedPages of
             Inl e \<Rightarrow> Inl e
           | Inr (publishMd, mdTree) \<Rightarrow>
               (case collectAttachments mdTree of
                  Inl e \<Rightarrow> Inl e
                | Inr attachments \<Rightarrow>
                    (let s1 = copyAttachments ext dest s attachments;
                         s2 = writeAttachment ext s1 mdPath (textEncode ext publishMd)
                     in Inr (writeAttachment ext s2 htmlPath
                          (textEncode ext
                             (template (pageName, publishConfig, renderMarkdownToHtml ext mdTree))))))))"

section \<open>The manifest\<close>

definition joinWith :: "string \<Rightarrow> string list \<Rightarrow> string" where
  "joinWith sep xs = (case xs of [] \<Rightarrow> [] | x # rest \<Rightarrow> x @ concat (map (\<lambda>y. sep @ y) rest))"

definition hexDigit :: "nat \<Rightarrow> char" where
  "hexDigit d = (if d < 10 then char_of (48 + d) else char_of (87 + d))"

text \<open>\<^verbatim>\<open>JSON.stringify\<close> on the values a manifest holds: strings (quoted and escaped),
  numbers, objects with members in insertion order, and the array of them.  The third
  argument is the number of spaces per indentation level, at most 10; with 0 the text has
  no line breaks.\<close>

definition jsonEscape :: "char \<Rightarrow> string" where
  "jsonEscape c =
     (let n = (of_char c :: nat) in
      if n = 34 then [CHR 0x5C, CHR 0x22]
      else if n = 92 then [CHR 0x5C, CHR 0x5C]
      else if n = 8 then [CHR 0x5C, CHR ''b'']
      else if n = 12 then [CHR 0x5C, CHR ''f'']
      else if n = 10 then [CHR 0x5C, CHR ''n'']
      else if n = 13 then [CHR 0x5C, CHR ''r'']
      else if n = 9 then [CHR 0x5C, CHR ''t'']
      else if n < 32 then [CHR 0x5C, CHR ''u'', CHR ''0'', CHR ''0'', hexDigit (n div 16), hexDigit (n mod 16)]
      else [c])"

definition jsonQuote :: "string \<Rightarrow> string" where
  "jsonQuote s = [CHR 0x22] @ concat (map jsonEscape s) @ [CHR 0x22]"

definition jsonIndent :: "nat \<Rightarrow> nat \<Rightarrow> string" where
  "jsonIndent gap depth = replicate (min 10 gap * depth) (CHR '' '')"

definition jsonMembers :: "FileMeta \<Rightarrow> (string \<times> string) list" where
  "jsonMembers m =
     [(''name'', jsonQuote (fm_name m)),
      (''size'', showNat (fm_size m)),
      (''contentType'', jsonQuote (fm_contentType m)),
      (''lastModified'', showNat (fm_lastModified m)),
      (''perm'', jsonQuote (fm_perm m))]"

definition jsonObject :: "nat \<Rightarrow> nat \<Rightarrow> (string \<times> string) list \<Rightarrow> string" where
  "jsonObject gap depth members =
     (if min 10 gap = 0
      then ''{'' @ joinWith '','' (map (\<lambda>(k, v). jsonQuote k @ '':'' @ v) members) @ ''}''
      else ''{'' @ [CHR 0x0A] @ jsonIndent gap (depth + 1)
           @ joinWith ('','' @ [CHR 0x0A] @ jsonIndent gap (depth + 1))
               (map (\<lambda>(k, v). jsonQuote k @ '': '' @ v) members)
           @ [CHR 0x0A] @ jsonIndent gap depth @ ''}'')"

definition jsonStringify :: "FileMeta list \<Rightarrow> nat \<Rightarrow> string" where
  "jsonStringify files gap =
     (if files = [] then ''[]''
      else if min 10 gap = 0
      then ''['' @ joinWith '','' (map (\<lambda>m. jsonObject gap 1 (jsonMembers m)) files) @ '']''
      else ''['' @ [CHR 0x0A] @ jsonIndent gap 1
           @ joinWith ('','' @ [CHR 0x0A] @ jsonIndent gap 1)
               (map (\<lambda>m. jsonObject gap 1 (jsonMembers m)) files)
           @ [CHR 0x0A] @ '']'')"

text \<open>Lines 173 to 191: one round of the manifest loop, and the loop.\<close>

definition manifestStep :: "string \<Rightarrow> FileMeta list \<Rightarrow> FileMeta \<Rightarrow> FileMeta list" where
  "manifestStep dest publishedFiles a =
     (if startsWith (fm_name a) dest then
        (if fm_contentType a = ''text/html'' then publishedFiles
         else publishedFiles @
                [\<lparr>fm_name = drop (length dest + 1) (fm_name a), fm_size = fm_size a,
                  fm_contentType = fm_contentType a, fm_lastModified = fm_lastModified a,
                  fm_perm = ''ro''\<rparr>])
      else publishedFiles)"

definition publishedFiles :: "string \<Rightarrow> FileMeta list \<Rightarrow> FileMeta list" where
  "publishedFiles dest listing = foldl (manifestStep dest) [] listing"

definition writeManifest :: "externals \<Rightarrow> string \<Rightarrow> Space \<Rightarrow> Space" where
  "writeManifest ext dest s =
     writeAttachment ext s (dest @ ''/index.json'')
       (textEncode ext (jsonStringify (publishedFiles dest (listAttachments s)) 2))"

section \<open>The pipeline driver\<close>

definition destDir :: string where
  "destDir = ''_public''"

text \<open>Lines 76 to 85.\<close>

definition resolveConfig :: "externals \<Rightarrow> PublishConfig" where
  "resolveConfig ext =
     (case readYamlPage ext ''PUBLISH'' of
        Inl e \<Rightarrow> defaultPublishConfig
      | Inr loadedPublishConfig \<Rightarrow> mergeConfig defaultPublishConfig loadedPublishConfig)"

text \<open>Lines 94 to 98: the listing is taken once, then every listed attachment whose
  name starts with the destination is deleted.\<close>

definition cleanStep :: "string \<Rightarrow> Space \<Rightarrow> FileMeta \<Rightarrow> Space" where
  "cleanStep dest s attachment =
     (if startsWith (fm_name attachment) dest then deleteAttachment s (fm_name attachment) else s)"

definition cleanDestination :: "string \<Rightarrow> Space \<Rightarrow> Space" where
  "cleanDestination dest s = foldl (cleanStep dest) s (listAttachments s)"

text \<open>Lines 139 to 143.\<close>

definition loadTemplate :: "externals \<Rightarrow> PublishConfig \<Rightarrow> error + string" where
  "loadTemplate ext publishConfig =
     (let pageTemplate = readAsset ext ''assets/template.hbs'' in
      case cfg_template publishConfig of
        None \<Rightarrow> Inr pageTemplate
      | Some t \<Rightarrow> if t \<noteq> [] then readCodeBlockPage ext t else Inr pageTemplate)"

text \<open>Lines 146 to 156: one page after the other; an exception ends the run.\<close>

fun generatePages ::
  "externals \<Rightarrow> Space \<Rightarrow> jsval list \<Rightarrow> jsval list \<Rightarrow> PublishConfig \<Rightarrow> string \<Rightarrow>
   (jsval \<times> PublishConfig \<times> string \<Rightarrow> string) \<Rightarrow> error + Space"
where
  "generatePages ext s [] publishedPagesArray publishConfig dest template = Inr s"
| "generatePages ext s (page # rest) publishedPagesArray publishConfig dest template =
     (case generatePage ext s page (dest @ ''/'' @ toStr (bigNumberText ext) page @ ''/index.html'')
             (dest @ ''/'' @ toStr (bigNumberText ext) page @ ''.md'')
             publishedPagesArray publishConfig dest template of
        Inl e \<Rightarrow> Inl e
      | Inr s' \<Rightarrow> generatePages ext s' rest publishedPagesArray publishConfig dest template)"

text \<open>Lines 158 to 169.\<close>

definition generateIndexPage ::
  "externals \<Rightarrow> Space \<Rightarrow> jsval list \<Rightarrow> PublishConfig \<Rightarrow> string \<Rightarrow>
   (jsval \<times> PublishConfig \<times> string \<Rightarrow> string) \<Rightarrow> error + Space"
where
  "generateIndexPage ext s publishedPagesArray publishConfig dest template =
     (case cfg_indexPage publishConfig of
        None \<Rightarrow> Inr s
      | Some indexPage \<Rightarrow>
          if indexPage \<noteq> [] then
            generatePage ext s (JString indexPage) (dest @ ''/index.html'') (dest @ ''/index.md'')
              publishedPagesArray publishConfig dest template
          else Inr s)"

text \<open>Everything \<^verbatim>\<open>publishAll\<close> does before the manifest (lines 76 to 169): the
  resolved configuration, the catalog entries as selection leaves them, the published
  set, and the store.\<close>

definition generateSite ::
  "externals \<Rightarrow> Space \<Rightarrow> error + (PublishConfig \<times> PageMeta list \<times> jsval list \<times> Space)"
where
  "generateSite ext s =
     (let publishConfig = resolveConfig ext;
          allPages = mapValues (allPageMap (listPages s));
          s1 = cleanDestination destDir s
      in case selectPages publishConfig allPages of
           (allPages', publishedPages) \<Rightarrow>
             (case loadTemplate ext publishConfig of
                Inl e \<Rightarrow> Inl e
              | Inr pageTemplate \<Rightarrow>
                  (let template = handlebarsCompile ext pageTemplate in
                   case generatePages ext s1 publishedPages publishedPages publishConfig destDir template of
                     Inl e \<Rightarrow> Inl e
                   | Inr s2 \<Rightarrow>
                       (case generateIndexPage ext s2 publishedPages publishConfig destDir template of
                          Inl e \<Rightarrow> Inl e
                        | Inr s3 \<Rightarrow> Inr (publishConfig, allPages', publishedPages, s3)))))"

text \<open>\<^verbatim>\<open>publishAll\<close>: the store and the catalog entries at the end of the run.\<close>

definition publishAll :: "externals \<Rightarrow> Space \<Rightarrow> error + (Space \<times> PageMeta list)" where
  "publishAll ext s =
     (case generateSite ext s of
        Inl e \<Rightarrow> Inl e
      | Inr (publishConfig, allPages, publishedPages, s3) \<Rightarrow>
          if flagSet (cfg_generateIndexJson publishConfig)
          then Inr (writeManifest ext destDir s3, allPages)
          else Inr (s3, allPages))"

section \<open>Sample inputs\<close>

text \<open>The subtree of a wiki link \<^verbatim>\<open>[[page]]\<close>: the opening mark, the page with its text
  as only child, the closing mark.\<close>

definition wikiLink :: "string \<Rightarrow> ParseTree" where
  "wikiLink page =
     ParseTree (Some ''WikiLink'') None
       (Some [ParseTree (Some ''WikiLinkMark'') None (Some [textNode ''[['']),
              ParseTree (Some ''WikiLinkPage'') None (Some [textNode page]),
              ParseTree (Some ''WikiLinkMark'') None (Some [textNode '']]''])])"

definition hashtagNode :: "string \<Rightarrow> ParseTree" where
  "hashtagNode t = ParseTree (Some ''Hashtag'') None (Some [textNode t])"

definition commentNode :: "ParseTree list \<Rightarrow> ParseTree" where
  "commentNode cs = ParseTree (Some ''Comment'') None (Some cs)"

definition urlNode :: "string \<Rightarrow> ParseTree" where
  "urlNode t = ParseTree (Some ''URL'') None (Some [textNode t])"

definition paragraphNode :: "ParseTree list \<Rightarrow> ParseTree" where
  "paragraphNode cs = ParseTree (Some ''Paragraph'') None (Some cs)"

definition documentNode :: "ParseTree list \<Rightarrow> ParseTree" where
  "documentNode cs = ParseTree (Some ''Document'') None (Some cs)"

text \<open>A page that links to \<open>C\<close> and to \<open>B@12\<close>, with a hashtag and a comment.\<close>

definition samplePost :: "ParseTree list" where
  "samplePost = [textNode '' '', hashtagNode ''#draft'', commentNode [textNode ''<!-- note -->''],
                 wikiLink ''B@12'']"

definition sampleDoc :: ParseTree where
  "sampleDoc = documentNode [paragraphNode (textNode ''See '' # wikiLink ''C'' # samplePost)]"

definition sampleCleaned :: ParseTree where
  "sampleCleaned =
     documentNode [paragraphNode [textNode ''See '', textNode ''_C_'', textNode '' '', wikiLink ''B@12'']]"

text \<open>A catalog with two entries of the name \<open>A\<close>, and a configuration that publishes
  everything while naming a tag and a prefix.\<close>

definition sampleCatalog :: "PageMeta list" where
  "sampleCatalog =
     [\<lparr>pm_name = JString ''A'', pm_tags = Some [], pm_share = None\<rparr>,
      \<lparr>pm_name = JString ''B'', pm_tags = Some [''blog''], pm_share = None\<rparr>,
      \<lparr>pm_name = JString ''A'', pm_tags = None, pm_share = Some (ShareScalar (JString ''pub''))\<rparr>]"

definition publishAllConfig :: PublishConfig where
  "publishAllConfig =
     defaultPublishConfig\<lparr>cfg_publishAll := Some True, cfg_tags := Some [''blog''],
       cfg_prefixes := Some [''B'']\<rparr>"

definition blogConfig :: PublishConfig where
  "blogConfig = defaultPublishConfig\<lparr>cfg_tags := Some [''blog'']\<rparr>"

text \<open>A catalog entry whose name is the number 42.\<close>

definition numberedPage :: "string list option \<Rightarrow> share option \<Rightarrow> PageMeta" where
  "numberedPage ts sh = \<lparr>pm_name = JNumber 42, pm_tags = ts, pm_share = sh\<rparr>"

text \<open>A page with a comment and three URL nodes: a local attachment that exists, an
  external address, and a local attachment that does not exist.\<close>

definition attachmentDoc :: ParseTree where
  "attachmentDoc =
     documentNode
       [paragraphNode
          [commentNode [textNode ''<!-- todo -->''], urlNode ''img.png'',
           urlNode ''https://example.com/x.png'', urlNode ''missing.png'']]"

text \<open>Stand-ins for the collaborators: the text of a tree as renderer, a parser that knows
  one page text, a template that returns the body, no \<open>PUBLISH\<close> page, and a storage layer
  that types files by their extension.\<close>

fun plainText :: "ParseTree \<Rightarrow> string" where
  "plainText (ParseTree ty tx cs) =
     (case tx of
        Some t \<Rightarrow> t
      | None \<Rightarrow> (case cs of None \<Rightarrow> [] | Some ts \<Rightarrow> concat (map plainText ts)))"

definition sampleExt :: externals where
  "sampleExt =
     \<lparr>readYamlPage = (\<lambda>n. Inl ReadError),
      parseMarkdown = (\<lambda>t. if t = ''doc'' then attachmentDoc else documentNode [textNode t]),
      renderToText = plainText,
      renderMarkdownToHtml = plainText,
      readAsset = (\<lambda>n. ''{{body}}''),
      readCodeBlockPage = (\<lambda>n. Inl ReadError),
      handlebarsCompile = (\<lambda>src (pageName, config, body). body),
      textEncode = (\<lambda>t. t),
      storedAs = (\<lambda>n d. \<lparr>sf_data = d,
                     sf_contentType = (if suffix ''.html'' n then ''text/html'' else ''text/plain''),
                     sf_lastModified = 7, sf_perm = ''rw''\<rparr>),
      bigNumberText = (\<lambda>n. ''1e+21'')\<rparr>"

definition sampleFile :: "bytes \<Rightarrow> string \<Rightarrow> StoredFile" where
  "sampleFile d ct = \<lparr>sf_data = d, sf_contentType = ct, sf_lastModified = 3, sf_perm = ''rw''\<rparr>"

definition sampleSpace :: Space where
  "sampleSpace =
     \<lparr>sp_pages = sampleCatalog,
      sp_pageText = (\<lambda>n. if n = JString ''A'' then Some ''doc''
                         else if n = JString ''B'' then Some ''hello'' else None),
      sp_attachments =
        [(''img.png'', sampleFile ''PNG'' ''image/png''),
         (''_public/old.md'', sampleFile ''old'' ''text/markdown''),
         (''_publicity/img.png'', sampleFile ''PNG'' ''image/png'')]\<rparr>"

text \<open>The catalog entries and the store that a run on \<open>sampleSpace\<close> leaves before the
  manifest is written.\<close>

definition sampleSelected :: "PageMeta list" where
  "sampleSelected =
     [\<lparr>pm_name = JString ''A'', pm_tags = None, pm_share = Some (ShareArray [JString ''pub''])\<rparr>,
      \<lparr>pm_name = JString ''B'', pm_tags = Some [''blog''], pm_share = None\<rparr>]"

definition sampleSite :: Space where
  "sampleSite =
     sampleSpace\<lparr>sp_attachments :=
       [(''img.png'', sampleFile ''PNG'' ''image/png''),
        (''_public/img.png'', \<lparr>sf_data = ''PNG'', sf_contentType = ''text/plain'',
           sf_lastModified = 7, sf_perm = ''rw''\<rparr>),
        (''_public/A.md'', \<lparr>sf_data = ''img.pnghttps://example.com/x.pngmissing.png'',
           sf_contentType = ''text/plain'', sf_lastModified = 7, sf_perm = ''rw''\<rparr>),
        (''_public/A/index.html'', \<lparr>sf_data = ''img.pnghttps://example.com/x.pngmissing.png'',
           sf_contentType = ''text/html'', sf_lastModified = 7, sf_perm = ''rw''\<rparr>)]\<rparr>"

text \<open>The store after \<^verbatim>\<open>generatePage\<close> for page \<open>A\<close> on \<open>sampleSpace\<close>.\<close>

definition samplePageStore :: Space where
  "samplePageStore =
     sampleSpace\<lparr>sp_attachments :=
       sp_attachments sampleSpace @
         [(''_public/img.png'', \<lparr>sf_data = ''PNG'', sf_contentType = ''text/plain'',
             sf_lastModified = 7, sf_perm = ''rw''\<rparr>),
          (''_public/A.md'', \<lparr>sf_data = ''img.pnghttps://example.com/x.pngmissing.png'',
             sf_contentType = ''text/plain'', sf_lastModified = 7, sf_perm = ''rw''\<rparr>),
          (''_public/A/index.html'', \<lparr>sf_data = ''img.pnghttps://example.com/x.pngmissing.png'',
             sf_contentType = ''text/html'', sf_lastModified = 7, sf_perm = ''rw''\<rparr>)]\<rparr>"

section \<open>Relations used in the statements\<close>

text \<open>What a round of the selection loop does to a catalog entry: when the name is a
  string and the share marker is a truthy scalar, the marker becomes the one-element
  array of it; otherwise nothing.\<close>

definition normalisedEntry :: "PageMeta \<Rightarrow> PageMeta" where
  "normalisedEntry p =
     (case pm_name p of
        JString name \<Rightarrow>
          (case pm_share p of
             Some (ShareScalar v) \<Rightarrow>
               if truthy v then p\<lparr>pm_share := Some (ShareArray [v])\<rparr> else p
           | _ \<Rightarrow> p)
      | _ \<Rightarrow> p)"



text \<open>Every attachment whose name starts with the destination lies under it.\<close>

definition destClean :: "string \<Rightarrow> Space \<Rightarrow> bool" where
  "destClean dest s =
     list_all (\<lambda>e. \<not> startsWith (fst e) dest \<or> startsWith (fst e) (dest @ ''/''))
       (sp_attachments s)"

section \<open>Properties of the tree rewrite\<close>


lemma nodes_eq: "nodes t = t # nodesBelow t"
  by (cases t) (simp add: nodesBelow_def)






lemma replace_types:
  fixes f :: "ParseTree \<Rightarrow> error + outcome" and okType :: "string option \<Rightarrow> bool"
  shows "(\<forall>n. f n = Inr Undefined \<longrightarrow> okType (ptype n)) \<Longrightarrow>
         (\<forall>n s. f n = Inr (Subst s) \<longrightarrow> (\<forall>m \<in> set (nodes s). okType (ptype m))) \<Longrightarrow>
         replaceNodesMatching f t = Inr t' \<Longrightarrow>
           ptype t' = ptype t \<and> ptext t' = ptext t \<and> (\<forall>n \<in> set (nodesBelow t'). okType (ptype n))"
    and "(\<forall>n. f n = Inr Undefined \<longrightarrow> okType (ptype n)) \<Longrightarrow>
         (\<forall>n s. f n = Inr (Subst s) \<longrightarrow> (\<forall>m \<in> set (nodes s). okType (ptype m))) \<Longrightarrow>
         replaceChildren f cs = Inr cs' \<Longrightarrow>
           (\<forall>c' \<in> set cs'. \<forall>n \<in> set (nodes c'). okType (ptype n))"
proof (induction f t and f cs arbitrary: t' and cs' rule: replaceNodesMatching_replaceChildren.induct)
  case (1 f ty tx)
  then show ?case by (auto simp: nodesBelow_def)
next
  case (2 f ty tx cs)
  then show ?case by (auto simp: nodesBelow_def split: sum.splits)
next
  case (3 f)
  then show ?case by simp
next
  case (4 f c cs)
  note keep = "4.prems"(1)
  note sub = "4.prems"(2)
  note run = "4.prems"(3)
  show ?case
  proof (cases "f c")
    case (Inl e)
    with run show ?thesis by simp
  next
    case (Inr out)
    show ?thesis
    proof (cases out)
      case Undefined
      with Inr run obtain c' cs'' where c': "replaceNodesMatching f c = Inr c'"
        and cs'': "replaceChildren f cs = Inr cs''" and eq: "cs' = c' # cs''"
        by (auto split: sum.splits)
      have a: "ptype c' = ptype c \<and> (\<forall>n \<in> set (nodesBelow c'). okType (ptype n))"
        using "4.IH"(1)[OF Inr Undefined keep sub c'] by blast
      have b: "\<forall>d \<in> set cs''. \<forall>n \<in> set (nodes d). okType (ptype n)"
        using "4.IH"(2)[OF Inr Undefined c' keep sub cs''] by blast
      have "okType (ptype c)" using keep Inr Undefined by simp
      with a b eq show ?thesis by (auto simp: nodes_eq)
    next
      case Null
      with Inr run keep sub "4.IH"(3) show ?thesis by simp
    next
      case (Subst s)
      with Inr run obtain cs'' where cs'': "replaceChildren f cs = Inr cs''" and eq: "cs' = s # cs''"
        by (auto split: sum.splits)
      have b: "\<forall>d \<in> set cs''. \<forall>n \<in> set (nodes d). okType (ptype n)"
        using "4.IH"(4)[OF Inr Subst keep sub cs''] by blast
      from sub Inr Subst have "\<forall>m \<in> set (nodes s). okType (ptype m)" by blast
      with b eq show ?thesis by auto
    qed
  qed
qed

lemma cleanNode_Undefined:
  "cleanNode cfg valid n = Inr Undefined \<Longrightarrow>
     ptype n \<noteq> Some ''Comment'' \<and> ptype n \<noteq> Some ''CommentBlock'' \<and>
     (flagSet (cfg_removeHashtags cfg) \<longrightarrow> ptype n \<noteq> Some ''Hashtag'')"
  by (auto simp: cleanNode_def removalRules_def Let_def split: if_splits sum.splits)

lemma cleanNode_Subst:
  "cleanNode cfg valid n = Inr (Subst s) \<Longrightarrow> \<exists>t. s = textNode t"
  by (auto simp: cleanNode_def removalRules_def Let_def split: if_splits sum.splits)


text \<open>
  When the rewrite pass of \<^verbatim>\<open>cleanMarkdown\<close> completes, the root keeps its type, and no
  node below the root has type \<open>Comment\<close> or \<open>CommentBlock\<close>; when \<open>removeHashtags\<close> is
  set, no node below the root has type \<open>Hashtag\<close> either.  The root itself is never
  submitted to the callback.
\<close>

lemma clean_removes_suppressed_below_root:
  assumes "cleanTree cfg valid t = Inr t'"
  shows "ptype t' = ptype t \<and>
         (\<forall>n \<in> set (nodesBelow t').
            ptype n \<noteq> Some ''Comment'' \<and> ptype n \<noteq> Some ''CommentBlock'' \<and>
            (flagSet (cfg_removeHashtags cfg) \<longrightarrow> ptype n \<noteq> Some ''Hashtag''))"
proof -
  let ?ok = "\<lambda>ty. ty \<noteq> Some ''Comment'' \<and> ty \<noteq> Some ''CommentBlock'' \<and>
                  (flagSet (cfg_removeHashtags cfg) \<longrightarrow> ty \<noteq> Some ''Hashtag'')"
  have keep: "\<forall>n. cleanNode cfg valid n = Inr Undefined \<longrightarrow> ?ok (ptype n)"
    using cleanNode_Undefined by blast
  have sub: "\<forall>n s. cleanNode cfg valid n = Inr (Subst s) \<longrightarrow> (\<forall>m \<in> set (nodes s). ?ok (ptype m))"
  proof (intro allI impI)
    fix n s assume "cleanNode cfg valid n = Inr (Subst s)"
    then obtain x where "s = textNode x" using cleanNode_Subst by blast
    then show "\<forall>m \<in> set (nodes s). ?ok (ptype m)" by (simp add: textNode_def)
  qed
  from replace_types(1)[of "cleanNode cfg valid" ?ok t t', OF keep sub] assms
  show ?thesis by (simp add: cleanTree_def)
qed


lemmas sample_defs = sampleDoc_def sampleCleaned_def samplePost_def documentNode_def paragraphNode_def
  commentNode_def hashtagNode_def wikiLink_def textNode_def urlNode_def

lemmas clean_defs = cleanTree_def cleanNode_def removalRules_def wikiLinkPage_def barePage_def
  splitFirst_def flagSet_def defaultPublishConfig_def






text \<open>
  Claim C2.  Let the rewrite pass of \<^verbatim>\<open>cleanMarkdown\<close> complete on a tree whose root is not
  itself a comment, a comment block or (with \<open>removeHashtags\<close> set) a hashtag, as is the
  document node that \<^verbatim>\<open>generatePage\<close> passes.  Then no node of the resulting tree, the
  root included, has type \<open>Comment\<close> or \<open>CommentBlock\<close>, and when \<open>removeHashtags\<close> is set
  none has type \<open>Hashtag\<close>.
\<close>

theorem clean_leaves_no_suppressed_node:
  assumes run: "cleanTree cfg valid t = Inr t'"
    and root: "ptype t \<noteq> Some ''Comment''" "ptype t \<noteq> Some ''CommentBlock''"
      "flagSet (cfg_removeHashtags cfg) \<longrightarrow> ptype t \<noteq> Some ''Hashtag''"
  shows "\<forall>n \<in> set (nodes t').
           ptype n \<noteq> Some ''Comment'' \<and> ptype n \<noteq> Some ''CommentBlock'' \<and>
           (flagSet (cfg_removeHashtags cfg) \<longrightarrow> ptype n \<noteq> Some ''Hashtag'')"
  using clean_removes_suppressed_below_root[OF run] root
  by (auto simp: nodes_eq[of t'])

theorem clean_leaves_no_suppressed_node_witness:
  "cleanTree defaultPublishConfig [JString ''B''] sampleDoc = Inr sampleCleaned \<and>
   ptype sampleDoc = Some ''Document'' \<and>
   flagSet (cfg_removeHashtags defaultPublishConfig) \<and>
   list_all (\<lambda>n. ptype n \<noteq> Some ''Comment'' \<and> ptype n \<noteq> Some ''CommentBlock'' \<and>
                  ptype n \<noteq> Some ''Hashtag'') (nodes sampleCleaned) \<and>
   list_ex (\<lambda>n. ptype n = Some ''Comment'') (nodes sampleDoc) \<and>
   list_ex (\<lambda>n. ptype n = Some ''Hashtag'') (nodes sampleDoc)"
proof -
  have run: "cleanTree defaultPublishConfig [JString ''B''] sampleDoc = Inr sampleCleaned"
    by (simp add: sample_defs clean_defs)
  have root: "ptype sampleDoc = Some ''Document''"
    by (simp add: sample_defs)
  have flag: "flagSet (cfg_removeHashtags defaultPublishConfig)"
    by (simp add: flagSet_def defaultPublishConfig_def)
  have before: "list_ex (\<lambda>n. ptype n = Some ''Comment'') (nodes sampleDoc)"
    "list_ex (\<lambda>n. ptype n = Some ''Hashtag'') (nodes sampleDoc)"
    by (simp_all add: sample_defs)
  from clean_leaves_no_suppressed_node[OF run] root flag run before
  show ?thesis by (simp add: list_all_iff)
qed



section \<open>Properties of the page selector\<close>

lemma set_setAdd: "set (setAdd s x) = insert x (set s)"
  by (auto simp: setAdd_def)

lemma distinct_setAdd: "distinct s \<Longrightarrow> distinct (setAdd s x)"
  by (simp add: setAdd_def)

lemma set_foldl_setAdd: "set (foldl setAdd acc xs) = set acc \<union> set xs"
  by (induction xs arbitrary: acc) (auto simp: set_setAdd)

lemma distinct_foldl_setAdd: "distinct acc \<Longrightarrow> distinct (foldl setAdd acc xs)"
  by (induction xs arbitrary: acc) (auto simp: distinct_setAdd)

lemma set_alist_update: "set (AList.update k v al) \<subseteq> insert (k, v) (set al)"
  by (induction al) auto

lemma allPageMap_fold:
  "(\<forall>e \<in> set m. pm_name (snd e) = fst e) \<Longrightarrow>
   (\<forall>e \<in> set (foldl (\<lambda>m pm. AList.update (pm_name pm) pm m) m ps). pm_name (snd e) = fst e) \<and>
   fst ` set (foldl (\<lambda>m pm. AList.update (pm_name pm) pm m) m ps) = fst ` set m \<union> pm_name ` set ps"
proof (induction ps arbitrary: m)
  case Nil
  then show ?case by simp
next
  case (Cons p ps)
  have inv: "\<forall>e \<in> set (AList.update (pm_name p) p m). pm_name (snd e) = fst e"
    using Cons.prems set_alist_update[of "pm_name p" p m] by auto
  from Cons.IH[OF inv] show ?case by (auto simp: AList.dom_update)
qed

lemma allPageMap_names:
  "pm_name ` set (mapValues (allPageMap pages)) = pm_name ` set pages"
proof -
  have inv: "\<forall>e \<in> set (allPageMap pages). pm_name (snd e) = fst e"
    and keys: "fst ` set (allPageMap pages) = pm_name ` set pages"
    using allPageMap_fold[of "[]" pages] by (simp_all add: allPageMap_def)
  have "pm_name ` set (mapValues (allPageMap pages)) =
          (\<lambda>e. pm_name (snd e)) ` set (allPageMap pages)"
    by (simp add: mapValues_def image_image)
  also have "\<dots> = fst ` set (allPageMap pages)"
    by (rule image_cong) (use inv in simp_all)
  finally show ?thesis using keys by simp
qed

lemma set_tag_loop:
  "set (foldl (\<lambda>acc tag. if tag \<in> set ct then setAdd acc x else acc) pub pt) =
     set pub \<union> (if set pt \<inter> set ct \<noteq> {} then {x} else {})"
  by (induction pt arbitrary: pub) (auto simp: set_setAdd)

lemma set_tagRule:
  "set (tagRule cfg p pub) =
     set pub \<union> (if (\<exists>ct pt. cfg_tags cfg = Some ct \<and> pm_tags p = Some pt \<and> set pt \<inter> set ct \<noteq> {})
                 then {pm_name p} else {})"
  by (auto simp: tagRule_def set_tag_loop split: option.splits)

lemma set_prefix_loop:
  "set (foldl (\<lambda>acc pfx. if startsWith name pfx then setAdd acc x else acc) pub ps) =
     set pub \<union> (if (\<exists>pfx \<in> set ps. startsWith name pfx) then {x} else {})"
  by (induction ps arbitrary: pub) (auto simp: set_setAdd)

lemma set_prefixRule:
  "set (prefixRule cfg name pub) =
     set pub \<union> (if (\<exists>ps. cfg_prefixes cfg = Some ps \<and> (\<exists>pfx \<in> set ps. startsWith name pfx))
                 then {JString name} else {})"
  by (auto simp: prefixRule_def set_prefix_loop split: option.splits)

lemma set_shareRule:
  "set (snd (shareRule p pub)) =
     set pub \<union> (if (\<exists>sh. pm_share p = Some sh \<and> shareTruthy sh \<and> JString ''pub'' \<in> set (shareAsArray sh))
                 then {pm_name p} else {})"
  by (auto simp: shareRule_def Let_def set_setAdd split: option.splits)

lemma fst_shareRule:
  "fst (shareRule p pub) =
     (case pm_share p of
        Some (ShareScalar v) \<Rightarrow> if truthy v then p\<lparr>pm_share := Some (ShareArray [v])\<rparr> else p
      | _ \<Rightarrow> p)"
  by (simp add: shareRule_def Let_def split: option.splits share.splits)

lemma fst_selectPage: "fst (selectPage cfg p pub) = normalisedEntry p"
  by (cases "pm_name p") (simp_all add: selectPage_def Let_def normalisedEntry_def fst_shareRule)

lemma selectPage_nonstring:
  "(\<forall>s. pm_name p \<noteq> JString s) \<Longrightarrow> selectPage cfg p pub = (p, tagRule cfg p pub)"
  by (auto simp: selectPage_def Let_def split: jsval.splits)

lemma selectPage_string:
  "pm_name p = JString name \<Longrightarrow>
   selectPage cfg p pub = shareRule p (prefixRule cfg name (tagRule cfg p pub))"
  by (simp add: selectPage_def Let_def)

lemma selectPage_mono: "set pub \<subseteq> set (snd (selectPage cfg p pub))"
  by (cases "pm_name p")
     (auto simp: selectPage_def Let_def set_shareRule set_prefixRule set_tagRule)

lemma selectPage_adds: "set (snd (selectPage cfg p pub)) \<subseteq> insert (pm_name p) (set pub)"
  by (cases "pm_name p")
     (auto simp: selectPage_def Let_def set_shareRule set_prefixRule set_tagRule split: if_splits)

lemma selectLoop_mono: "set pub \<subseteq> set (snd (selectLoop cfg pages pub))"
proof (induction pages arbitrary: pub)
  case Nil
  then show ?case by simp
next
  case (Cons p pages)
  obtain p' pub' where sp: "selectPage cfg p pub = (p', pub')" by (cases "selectPage cfg p pub")
  obtain r pub'' where sl: "selectLoop cfg pages pub' = (r, pub'')" by (cases "selectLoop cfg pages pub'")
  have "set pub \<subseteq> set pub'" using selectPage_mono[of pub cfg p] sp by simp
  moreover have "set pub' \<subseteq> set pub''" using Cons.IH[of pub'] sl by simp
  ultimately show ?case using sp sl by simp
qed

lemma selectLoop_nonstring:
  assumes "\<forall>s. v \<noteq> JString s"
  shows "v \<in> set (snd (selectLoop cfg pages pub)) \<longleftrightarrow>
           v \<in> set pub \<or>
           (\<exists>p \<in> set pages. pm_name p = v \<and>
              (\<exists>ct pt. cfg_tags cfg = Some ct \<and> pm_tags p = Some pt \<and> set pt \<inter> set ct \<noteq> {}))"
proof (induction pages arbitrary: pub)
  case Nil
  then show ?case by simp
next
  case (Cons p pages)
  obtain p' pub' where sp: "selectPage cfg p pub = (p', pub')" by (cases "selectPage cfg p pub")
  obtain r pub'' where sl: "selectLoop cfg pages pub' = (r, pub'')" by (cases "selectLoop cfg pages pub'")
  have step: "v \<in> set pub' \<longleftrightarrow> v \<in> set pub \<or>
      (pm_name p = v \<and> (\<exists>ct pt. cfg_tags cfg = Some ct \<and> pm_tags p = Some pt \<and> set pt \<inter> set ct \<noteq> {}))"
  proof (cases "pm_name p = v")
    case True
    with assms have "\<forall>s. pm_name p \<noteq> JString s" by simp
    from selectPage_nonstring[OF this, of cfg pub] sp have "pub' = tagRule cfg p pub" by simp
    with True show ?thesis by (auto simp: set_tagRule split: if_splits)
  next
    case False
    have "set pub \<subseteq> set pub'" using selectPage_mono[of pub cfg p] sp by simp
    moreover have "set pub' \<subseteq> insert (pm_name p) (set pub)"
      using selectPage_adds[of cfg p pub] sp by simp
    ultimately show ?thesis using False by auto
  qed
  have "v \<in> set pub'' \<longleftrightarrow> v \<in> set pub' \<or>
      (\<exists>q \<in> set pages. pm_name q = v \<and>
         (\<exists>ct pt. cfg_tags cfg = Some ct \<and> pm_tags q = Some pt \<and> set pt \<inter> set ct \<noteq> {}))"
    using Cons.IH[of pub'] sl by simp
  with step show ?case using sp sl by auto
qed

lemma selectLoop_catalog:
  "fst (selectLoop cfg pages pub) = map normalisedEntry pages"
proof (induction pages arbitrary: pub)
  case Nil
  then show ?case by simp
next
  case (Cons p pages)
  obtain p' pub' where sp: "selectPage cfg p pub = (p', pub')" by (cases "selectPage cfg p pub")
  obtain r pub'' where sl: "selectLoop cfg pages pub' = (r, pub'')" by (cases "selectLoop cfg pages pub'")
  have "p' = normalisedEntry p" using fst_selectPage[of cfg p pub] sp by simp
  moreover have "r = map normalisedEntry pages" using Cons.IH[of pub'] sl by simp
  ultimately show ?case using sp sl by simp
qed

lemma selectLoop_share_pub:
  assumes "p \<in> set pages" "pm_name p = JString name"
    "pm_share p = Some (ShareScalar (JString ''pub''))"
  shows "JString name \<in> set (snd (selectLoop cfg pages pub))"
  using assms(1)
proof (induction pages arbitrary: pub)
  case Nil
  then show ?case by simp
next
  case (Cons q pages)
  obtain q' pub' where sp: "selectPage cfg q pub = (q', pub')" by (cases "selectPage cfg q pub")
  obtain r pub'' where sl: "selectLoop cfg pages pub' = (r, pub'')" by (cases "selectLoop cfg pages pub'")
  show ?case
  proof (cases "p = q")
    case True
    have "JString name \<in> set (snd (selectPage cfg p pub))"
      using assms(2,3) by (simp add: selectPage_string set_shareRule)
    with True sp have "JString name \<in> set pub'" by simp
    moreover have "set pub' \<subseteq> set pub''" using selectLoop_mono[of pub' cfg pages] sl by simp
    ultimately show ?thesis using sp sl by auto
  next
    case False
    with Cons.prems have "p \<in> set pages" by simp
    from Cons.IH[OF this, of pub'] sl sp show ?thesis by simp
  qed
qed

lemmas select_defs = selectPages_def selectPage_def tagRule_def prefixRule_def shareRule_def
  setAdd_def flagSet_def startsWith_def allPageMap_def mapValues_def Let_def

lemmas catalog_defs = sampleCatalog_def publishAllConfig_def blogConfig_def numberedPage_def
  defaultPublishConfig_def

text \<open>
  Claim C3.  With \<open>publishAll\<close> set, the published set computed from the catalog (after
  the entries were put into the map by name) is exactly the set of names of the catalog,
  without duplicates; tags, prefixes and share markers play no part, and the catalog
  entries are left as they are.
\<close>

theorem publishAll_selects_every_name:
  assumes "flagSet (cfg_publishAll cfg)"
  shows "set (snd (selectPages cfg (mapValues (allPageMap pages)))) =
           pm_name ` set (mapValues (allPageMap pages)) \<and>
         pm_name ` set (mapValues (allPageMap pages)) = pm_name ` set pages \<and>
         distinct (snd (selectPages cfg (mapValues (allPageMap pages)))) \<and>
         fst (selectPages cfg (mapValues (allPageMap pages))) = mapValues (allPageMap pages)"
  using assms
  by (simp add: selectPages_def set_foldl_setAdd distinct_foldl_setAdd allPageMap_names)

theorem publishAll_selects_every_name_witness:
  "flagSet (cfg_publishAll publishAllConfig) \<and>
   snd (selectPages publishAllConfig (mapValues (allPageMap sampleCatalog))) =
     [JString ''A'', JString ''B''] \<and>
   set (snd (selectPages publishAllConfig (mapValues (allPageMap sampleCatalog)))) =
     pm_name ` set sampleCatalog"
proof -
  have flag: "flagSet (cfg_publishAll publishAllConfig)"
    by (simp add: flagSet_def catalog_defs)
  have run: "snd (selectPages publishAllConfig (mapValues (allPageMap sampleCatalog))) =
     [JString ''A'', JString ''B'']"
    by (simp add: select_defs catalog_defs)
  from publishAll_selects_every_name[OF flag, of sampleCatalog] flag run
  show ?thesis by simp
qed

text \<open>
  Claim C4, as the code has it.  The sanity check on the name stands after the tag rule
  and before the prefix and share rules.  For an entry whose name is not a string, one
  round of the loop is the tag rule alone; such a name is published exactly when an entry
  of that name has a tag among the configured tags.
\<close>

theorem nonstring_name_only_tag_rule:
  assumes "\<not> flagSet (cfg_publishAll cfg)" and "\<forall>s. v \<noteq> JString s"
  shows "(v \<in> set (snd (selectPages cfg pages)) \<longleftrightarrow>
            (\<exists>p \<in> set pages. pm_name p = v \<and>
               (\<exists>ct pt. cfg_tags cfg = Some ct \<and> pm_tags p = Some pt \<and> set pt \<inter> set ct \<noteq> {}))) \<and>
         (\<forall>p pub. pm_name p = v \<longrightarrow> selectPage cfg p pub = (p, tagRule cfg p pub))"
proof -
  have "\<forall>p pub. pm_name p = v \<longrightarrow> selectPage cfg p pub = (p, tagRule cfg p pub)"
    using assms(2) selectPage_nonstring by blast
  moreover have "v \<in> set (snd (selectPages cfg pages)) \<longleftrightarrow>
            (\<exists>p \<in> set pages. pm_name p = v \<and>
               (\<exists>ct pt. cfg_tags cfg = Some ct \<and> pm_tags p = Some pt \<and> set pt \<inter> set ct \<noteq> {}))"
    using assms(1) selectLoop_nonstring[OF assms(2), of cfg pages "[]"]
    by (simp add: selectPages_def)
  ultimately show ?thesis by blast
qed

theorem nonstring_name_only_tag_rule_witness:
  "\<not> flagSet (cfg_publishAll defaultPublishConfig) \<and>
   JNumber 42 \<notin> set (snd (selectPages
      (defaultPublishConfig\<lparr>cfg_prefixes := Some [[]], cfg_tags := Some [''news'']\<rparr>)
      [numberedPage (Some [''blog'']) (Some (ShareArray [JString ''pub'']))])) \<and>
   selectPage blogConfig (numberedPage (Some [''blog'']) (Some (ShareArray [JString ''pub'']))) [] =
     (numberedPage (Some [''blog'']) (Some (ShareArray [JString ''pub''])), [JNumber 42])"
proof -
  let ?cfg = "defaultPublishConfig\<lparr>cfg_prefixes := Some [[]], cfg_tags := Some [''news'']\<rparr>"
  have off: "\<not> flagSet (cfg_publishAll ?cfg)" "\<not> flagSet (cfg_publishAll blogConfig)"
    "\<not> flagSet (cfg_publishAll defaultPublishConfig)"
    by (simp_all add: flagSet_def catalog_defs)
  have ns: "\<forall>s. JNumber 42 \<noteq> JString s" by simp
  from nonstring_name_only_tag_rule[OF off(1) ns,
      of "[numberedPage (Some [''blog'']) (Some (ShareArray [JString ''pub'']))]"]
  have a: "JNumber 42 \<notin> set (snd (selectPages ?cfg
      [numberedPage (Some [''blog'']) (Some (ShareArray [JString ''pub'']))]))"
    by (simp add: numberedPage_def defaultPublishConfig_def)
  from nonstring_name_only_tag_rule[OF off(2) ns, of "[]"]
  have b: "selectPage blogConfig (numberedPage (Some [''blog'']) (Some (ShareArray [JString ''pub'']))) [] =
     (numberedPage (Some [''blog'']) (Some (ShareArray [JString ''pub''])), [JNumber 42])"
    by (simp add: numberedPage_def tagRule_def blogConfig_def defaultPublishConfig_def setAdd_def)
  from a b off(3) show ?thesis by simp
qed

text \<open>
  An entry named by the number 42 with the configured tag \<open>blog\<close> is published: the tag
  rule is not skipped for it.
\<close>

theorem nonstring_name_tag_counterexample:
  "\<not> flagSet (cfg_publishAll blogConfig) \<and>
   pm_name (numberedPage (Some [''blog'']) None) = JNumber 42 \<and>
   selectPages blogConfig (mapValues (allPageMap [numberedPage (Some [''blog'']) None])) =
     ([numberedPage (Some [''blog'']) None], [JNumber 42])"
  by (simp add: select_defs catalog_defs)

text \<open>
  Claim C6, as the code has it.  An entry of the catalog whose name is a string and whose
  share marker is the scalar string \<open>pub\<close> is published, under every configuration; its
  round of the loop replaces the marker by the one-element array and adds the name.
\<close>

theorem scalar_pub_marker_selected:
  assumes "p \<in> set pages" and "pm_name p = JString name"
    and "pm_share p = Some (ShareScalar (JString ''pub''))"
  shows "JString name \<in> set (snd (selectPages cfg pages)) \<and>
         (\<forall>pub. selectPage cfg p pub =
            (p\<lparr>pm_share := Some (ShareArray [JString ''pub''])\<rparr>,
             setAdd (prefixRule cfg name (tagRule cfg p pub)) (JString name)))"
proof -
  have "JString name \<in> set (snd (selectPages cfg pages))"
  proof (cases "flagSet (cfg_publishAll cfg)")
    case True
    with assms(1,2) show ?thesis
      by (force simp: selectPages_def set_foldl_setAdd)
  next
    case False
    with selectLoop_share_pub[OF assms, of cfg "[]"] show ?thesis
      by (simp add: selectPages_def)
  qed
  moreover have "\<forall>pub. selectPage cfg p pub =
            (p\<lparr>pm_share := Some (ShareArray [JString ''pub''])\<rparr>,
             setAdd (prefixRule cfg name (tagRule cfg p pub)) (JString name))"
    using assms(2,3) by (simp add: selectPage_string shareRule_def)
  ultimately show ?thesis by blast
qed

theorem scalar_pub_marker_selected_witness:
  "sampleCatalog ! 2 \<in> set (mapValues (allPageMap sampleCatalog)) \<and>
   pm_name (sampleCatalog ! 2) = JString ''A'' \<and>
   pm_share (sampleCatalog ! 2) = Some (ShareScalar (JString ''pub'')) \<and>
   snd (selectPages defaultPublishConfig (mapValues (allPageMap sampleCatalog))) = [JString ''A'']"
proof -
  have a: "sampleCatalog ! 2 \<in> set (mapValues (allPageMap sampleCatalog))"
    by (simp add: select_defs catalog_defs)
  have b: "pm_name (sampleCatalog ! 2) = JString ''A''"
    by (simp add: catalog_defs)
  have c: "pm_share (sampleCatalog ! 2) = Some (ShareScalar (JString ''pub''))"
    by (simp add: catalog_defs)
  have d: "snd (selectPages defaultPublishConfig (mapValues (allPageMap sampleCatalog))) = [JString ''A'']"
    by (simp add: select_defs catalog_defs)
  from scalar_pub_marker_selected[OF a b c, of defaultPublishConfig] a b c d
  show ?thesis by simp
qed

text \<open>
  An entry named by the number 42 with the scalar marker \<open>pub\<close> is not published: the
  sanity check ends its round before the share rule.
\<close>

theorem scalar_pub_marker_counterexample:
  "pm_share (numberedPage None (Some (ShareScalar (JString ''pub'')))) =
     Some (ShareScalar (JString ''pub'')) \<and>
   selectPages defaultPublishConfig
     (mapValues (allPageMap [numberedPage None (Some (ShareScalar (JString ''pub'')))])) =
     ([numberedPage None (Some (ShareScalar (JString ''pub'')))], [])"
  by (simp add: select_defs catalog_defs)

section \<open>Properties of the site generator\<close>

lemma names_write:
  "fst ` set (sp_attachments (writeAttachment ext s n d)) = insert n (fst ` set (sp_attachments s))"
  by (simp add: writeAttachment_def AList.dom_update)

lemma read_write:
  "readAttachment (writeAttachment ext s n d) m = (if m = n then Inr d else readAttachment s m)"
  by (simp add: readAttachment_def writeAttachment_def AList.update_conv')

lemma pages_write:
  "sp_pages (writeAttachment ext s n d) = sp_pages s \<and>
   sp_pageText (writeAttachment ext s n d) = sp_pageText s"
  by (simp add: writeAttachment_def)

lemma pages_delete:
  "sp_pages (deleteAttachment s n) = sp_pages s \<and>
   sp_pageText (deleteAttachment s n) = sp_pageText s"
  by (simp add: deleteAttachment_def)

lemma readable_iff: "(\<exists>d. readAttachment s a = Inr d) \<longleftrightarrow> a \<in> fst ` set (sp_attachments s)"
proof -
  have "map_of (sp_attachments s) a \<noteq> None \<longleftrightarrow> a \<in> fst ` set (sp_attachments s)"
    by (simp add: map_of_eq_None_iff)
  then show ?thesis by (auto simp: readAttachment_def split: option.splits)
qed

lemma unreadable_error: "readAttachment s a = Inl e \<Longrightarrow> e = ReadError"
  by (auto simp: readAttachment_def split: option.splits)

lemma copy_step_read:
  "readAttachment s a = Inr d \<Longrightarrow>
   readAttachment (copyAttachment ext dest s a) (dest @ ''/'' @ a) = Inr d"
  by (simp add: copyAttachment_def read_write)

lemma copy_step_skip:
  "readAttachment s a = Inl e \<Longrightarrow> copyAttachment ext dest s a = s"
  by (simp add: copyAttachment_def)

lemma names_copy_step:
  "fst ` set (sp_attachments (copyAttachment ext dest s a)) =
     fst ` set (sp_attachments s) \<union>
       (if a \<in> fst ` set (sp_attachments s) then {dest @ ''/'' @ a} else {})"
proof (cases "readAttachment s a")
  case (Inl e)
  then have "a \<notin> fst ` set (sp_attachments s)" using readable_iff[of s a] by auto
  with Inl show ?thesis by (simp add: copyAttachment_def)
next
  case (Inr d)
  then have "a \<in> fst ` set (sp_attachments s)" using readable_iff[of s a] by auto
  with Inr show ?thesis by (auto simp: copyAttachment_def names_write)
qed

lemma names_copy_grow:
  "fst ` set (sp_attachments s) \<subseteq> fst ` set (sp_attachments (copyAttachments ext dest s atts))"
proof (induction atts arbitrary: s)
  case Nil
  then show ?case by (simp add: copyAttachments_def)
next
  case (Cons a atts)
  have "fst ` set (sp_attachments s) \<subseteq> fst ` set (sp_attachments (copyAttachment ext dest s a))"
    by (auto simp: names_copy_step)
  also have "\<dots> \<subseteq> fst ` set (sp_attachments (copyAttachments ext dest (copyAttachment ext dest s a) atts))"
    by (rule Cons.IH)
  finally show ?case by (simp add: copyAttachments_def)
qed

lemma names_copy_bound:
  "fst ` set (sp_attachments (copyAttachments ext dest s atts)) \<subseteq>
     fst ` set (sp_attachments s) \<union> (\<lambda>a. dest @ ''/'' @ a) ` set atts"
proof (induction atts arbitrary: s)
  case Nil
  then show ?case by (simp add: copyAttachments_def)
next
  case (Cons a atts)
  have "fst ` set (sp_attachments (copyAttachments ext dest (copyAttachment ext dest s a) atts)) \<subseteq>
     fst ` set (sp_attachments (copyAttachment ext dest s a)) \<union> (\<lambda>a. dest @ ''/'' @ a) ` set atts"
    by (rule Cons.IH)
  also have "\<dots> \<subseteq> fst ` set (sp_attachments s) \<union> (\<lambda>a. dest @ ''/'' @ a) ` set (a # atts)"
    by (auto simp: names_copy_step split: if_splits)
  finally show ?case by (simp add: copyAttachments_def)
qed

lemma copied_exists:
  "a \<in> set atts \<Longrightarrow> a \<in> fst ` set (sp_attachments s) \<Longrightarrow>
   dest @ ''/'' @ a \<in> fst ` set (sp_attachments (copyAttachments ext dest s atts))"
proof (induction atts arbitrary: s)
  case Nil
  then show ?case by simp
next
  case (Cons b atts)
  let ?s1 = "copyAttachment ext dest s b"
  have grow: "fst ` set (sp_attachments ?s1) \<subseteq>
      fst ` set (sp_attachments (copyAttachments ext dest ?s1 atts))"
    by (rule names_copy_grow)
  have keep: "a \<in> fst ` set (sp_attachments ?s1)"
    using Cons.prems(2) by (simp add: names_copy_step)
  show ?case
  proof (cases "a = b")
    case True
    with Cons.prems(2) have "dest @ ''/'' @ a \<in> fst ` set (sp_attachments ?s1)"
      by (simp add: names_copy_step)
    with grow show ?thesis by (auto simp: copyAttachments_def)
  next
    case False
    with Cons.prems(1) have "a \<in> set atts" by simp
    from Cons.IH[OF this keep] show ?thesis by (simp add: copyAttachments_def)
  qed
qed

lemma pages_copy:
  "sp_pages (copyAttachments ext dest s atts) = sp_pages s \<and>
   sp_pageText (copyAttachments ext dest s atts) = sp_pageText s"
proof (induction atts arbitrary: s)
  case Nil
  then show ?case by (simp add: copyAttachments_def)
next
  case (Cons a atts)
  have "sp_pages (copyAttachment ext dest s a) = sp_pages s \<and>
        sp_pageText (copyAttachment ext dest s a) = sp_pageText s"
    by (simp add: copyAttachment_def pages_write split: sum.splits)
  with Cons.IH[of "copyAttachment ext dest s a"] show ?case by (simp add: copyAttachments_def)
qed

lemma includesStr_iff: "includesStr s t \<longleftrightarrow> (\<exists>ps ss. s = ps @ t @ ss)"
proof (induction s)
  case Nil
  then show ?case by auto
next
  case (Cons c cs)
  show ?case
  proof
    assume "includesStr (c # cs) t"
    then consider "prefix t (c # cs)" | "includesStr cs t" by auto
    then show "\<exists>ps ss. c # cs = ps @ t @ ss"
    proof cases
      case 1
      then obtain ss where "c # cs = t @ ss" by (auto simp: prefix_def)
      then have "c # cs = [] @ t @ ss" by simp
      then show ?thesis by blast
    next
      case 2
      with Cons.IH obtain ps ss where "cs = ps @ t @ ss" by blast
      then have "c # cs = (c # ps) @ t @ ss" by simp
      then show ?thesis by blast
    qed
  next
    assume "\<exists>ps ss. c # cs = ps @ t @ ss"
    then obtain ps ss where eq: "c # cs = ps @ t @ ss" by blast
    show "includesStr (c # cs) t"
    proof (cases ps)
      case Nil
      with eq have "prefix t (c # cs)" by (simp add: prefix_def)
      then show ?thesis by simp
    next
      case (Cons p ps')
      with eq have "cs = ps' @ t @ ss" by simp
      with Cons.IH have "includesStr cs t" by blast
      then show ?thesis by simp
    qed
  qed
qed

lemma collectUrls_iff:
  "collectUrls ns acc = Inr atts \<longleftrightarrow>
     (\<exists>urls. map urlText ns = map Inr urls \<and>
             atts = acc @ filter (\<lambda>u. \<not> includesStr u ''://'') urls)"
proof (induction ns arbitrary: acc)
  case Nil
  then show ?case by auto
next
  case (Cons n ns)
  show ?case
  proof (cases "urlText n")
    case (Inl e)
    then show ?thesis by (auto simp: map_eq_Cons_conv)
  next
    case (Inr u)
    let ?acc = "if \<not> includesStr u ''://'' then acc @ [u] else acc"
    have "collectUrls (n # ns) acc = Inr atts \<longleftrightarrow> collectUrls ns ?acc = Inr atts"
      using Inr by simp
    also have "\<dots> \<longleftrightarrow> (\<exists>urls. map urlText ns = map Inr urls \<and>
             atts = ?acc @ filter (\<lambda>u. \<not> includesStr u ''://'') urls)"
      by (rule Cons.IH)
    also have "\<dots> \<longleftrightarrow> (\<exists>urls. map urlText (n # ns) = map Inr urls \<and>
             atts = acc @ filter (\<lambda>u. \<not> includesStr u ''://'') urls)"
    proof
      assume "\<exists>urls. map urlText ns = map Inr urls \<and>
             atts = ?acc @ filter (\<lambda>u. \<not> includesStr u ''://'') urls"
      then obtain urls where u: "map urlText ns = map Inr urls"
        "atts = ?acc @ filter (\<lambda>u. \<not> includesStr u ''://'') urls" by blast
      have "map urlText (n # ns) = map Inr (u # urls)" using Inr u(1) by simp
      moreover have "atts = acc @ filter (\<lambda>u. \<not> includesStr u ''://'') (u # urls)"
        using u(2) by simp
      ultimately show "\<exists>urls. map urlText (n # ns) = map Inr urls \<and>
             atts = acc @ filter (\<lambda>u. \<not> includesStr u ''://'') urls" by blast
    next
      assume "\<exists>urls. map urlText (n # ns) = map Inr urls \<and>
             atts = acc @ filter (\<lambda>u. \<not> includesStr u ''://'') urls"
      then obtain urls where u: "map urlText (n # ns) = map Inr urls"
        "atts = acc @ filter (\<lambda>u. \<not> includesStr u ''://'') urls" by blast
      from u(1) Inr obtain rest where r: "urls = u # rest" "map urlText ns = map Inr rest"
        by (cases urls) auto
      have "atts = ?acc @ filter (\<lambda>u. \<not> includesStr u ''://'') rest"
        using u(2) r(1) by simp
      with r(2) show "\<exists>urls. map urlText ns = map Inr urls \<and>
             atts = ?acc @ filter (\<lambda>u. \<not> includesStr u ''://'') urls" by blast
    qed
    finally show ?thesis .
  qed
qed

lemmas store_defs = readAttachment_def writeAttachment_def deleteAttachment_def listAttachments_def
  fileMeta_def copyAttachment_def copyAttachments_def readPage_def listPages_def

lemmas fixture_defs = sampleExt_def sampleSpace_def sampleFile_def attachmentDoc_def
  documentNode_def paragraphNode_def commentNode_def urlNode_def textNode_def

lemmas collect_defs = collectAttachments_def collectNodesOfType_def urlText_def

text \<open>
  Claim C7, as the code has it.  \<^verbatim>\<open>collectAttachments\<close> returns a list exactly when every
  URL node has a first child with a text, and the list is then the texts of the URL
  nodes without \<open>://\<close>, in traversal order, duplicates kept; \<open>includesStr\<close> is the
  substring test.  One round of the copy loop writes what it read of an attachment under
  the destination, a slash and the attachment path, and leaves the store alone when the
  read fails.  After the loop a file stands at that path for every collected attachment
  that was readable before it, and the loop makes no name but such paths.
\<close>

theorem attachments_collected_and_copied:
  "(collectAttachments tree = Inr atts \<longleftrightarrow>
      (\<exists>urls. map urlText (collectNodesOfType tree ''URL'') = map Inr urls \<and>
              atts = filter (\<lambda>u. \<not> includesStr u ''://'') urls)) \<and>
   (includesStr u ''://'' \<longleftrightarrow> (\<exists>ps ss. u = ps @ ''://'' @ ss)) \<and>
   (\<forall>a d. readAttachment s a = Inr d \<longrightarrow>
      readAttachment (copyAttachment ext dest s a) (dest @ ''/'' @ a) = Inr d) \<and>
   (\<forall>a e. readAttachment s a = Inl e \<longrightarrow> copyAttachment ext dest s a = s) \<and>
   copyAttachments ext dest s (a # rest) = copyAttachments ext dest (copyAttachment ext dest s a) rest \<and>
   copyAttachments ext dest s [] = s \<and>
   (\<forall>a \<in> set atts. (\<exists>d. readAttachment s a = Inr d) \<longrightarrow>
      (\<exists>d. readAttachment (copyAttachments ext dest s atts) (dest @ ''/'' @ a) = Inr d)) \<and>
   fst ` set (sp_attachments (copyAttachments ext dest s atts)) \<subseteq>
     fst ` set (sp_attachments s) \<union> (\<lambda>a. dest @ ''/'' @ a) ` set atts"
proof -
  have c1: "collectAttachments tree = Inr atts \<longleftrightarrow>
      (\<exists>urls. map urlText (collectNodesOfType tree ''URL'') = map Inr urls \<and>
              atts = filter (\<lambda>u. \<not> includesStr u ''://'') urls)"
    using collectUrls_iff[of "collectNodesOfType tree ''URL''" "[]" atts]
    by (simp add: collectAttachments_def)
  have c2: "includesStr u ''://'' \<longleftrightarrow> (\<exists>ps ss. u = ps @ ''://'' @ ss)"
    by (rule includesStr_iff)
  have c3: "\<forall>a d. readAttachment s a = Inr d \<longrightarrow>
      readAttachment (copyAttachment ext dest s a) (dest @ ''/'' @ a) = Inr d"
    using copy_step_read by blast
  have c4: "\<forall>a e. readAttachment s a = Inl e \<longrightarrow> copyAttachment ext dest s a = s"
    using copy_step_skip by blast
  have c5: "copyAttachments ext dest s (a # rest) =
      copyAttachments ext dest (copyAttachment ext dest s a) rest"
    "copyAttachments ext dest s [] = s"
    by (simp_all add: copyAttachments_def)
  have c6: "\<forall>a \<in> set atts. (\<exists>d. readAttachment s a = Inr d) \<longrightarrow>
      (\<exists>d. readAttachment (copyAttachments ext dest s atts) (dest @ ''/'' @ a) = Inr d)"
    using copied_exists[of _ atts s dest ext] by (simp add: readable_iff)
  have c7: "fst ` set (sp_attachments (copyAttachments ext dest s atts)) \<subseteq>
     fst ` set (sp_attachments s) \<union> (\<lambda>a. dest @ ''/'' @ a) ` set atts"
    by (rule names_copy_bound)
  from c1 c2 c3 c4 c5 c6 c7 show ?thesis by blast
qed

theorem attachments_collected_and_copied_witness:
  "collectAttachments attachmentDoc = Inr [''img.png'', ''missing.png''] \<and>
   includesStr ''https://example.com/x.png'' ''://'' \<and>
   readAttachment sampleSpace ''img.png'' = Inr ''PNG'' \<and>
   readAttachment (copyAttachments sampleExt ''_public'' sampleSpace [''img.png'', ''missing.png''])
     ''_public/img.png'' = Inr ''PNG''"
proof -
  have a: "collectAttachments attachmentDoc = Inr [''img.png'', ''missing.png'']"
    by (simp add: collect_defs fixture_defs)
  have b: "includesStr ''https://example.com/x.png'' ''://''"
    by simp
  have c: "readAttachment sampleSpace ''img.png'' = Inr ''PNG''"
    by (simp add: store_defs fixture_defs)
  have d: "readAttachment (copyAttachments sampleExt ''_public'' sampleSpace [''img.png'', ''missing.png''])
     ''_public/img.png'' = Inr ''PNG''"
    using attachments_collected_and_copied[of attachmentDoc "[''img.png'', ''missing.png'']"
        "''x''" sampleSpace sampleExt "''_public''" "''img.png''" "[''missing.png'']"]
    by (simp add: store_defs fixture_defs)
  from a b c d show ?thesis by simp
qed

text \<open>
  The collected attachment \<open>missing.png\<close> cannot be read and is not copied; a URL node
  without children makes the collection fail.
\<close>

theorem unreadable_attachment_counterexample:
  "collectAttachments attachmentDoc = Inr [''img.png'', ''missing.png''] \<and>
   readAttachment sampleSpace ''missing.png'' = Inl ReadError \<and>
   readAttachment (copyAttachments sampleExt ''_public'' sampleSpace [''img.png'', ''missing.png''])
     ''_public/missing.png'' = Inl ReadError \<and>
   collectAttachments (documentNode [ParseTree (Some ''URL'') None (Some [])]) = Inl TypeError"
  by (simp add: collect_defs store_defs fixture_defs)

lemma generatePage_result:
  assumes "generatePage ext s pageName htmlPath mdPath publishedPages cfg dest template = Inr s'"
  shows "\<exists>src mdTree atts.
           readPage s pageName = Inr src \<and>
           cleanTree cfg publishedPages (parseMarkdown ext src) = Inr mdTree \<and>
           collectAttachments mdTree = Inr atts \<and>
           s' = writeAttachment ext
                  (writeAttachment ext (copyAttachments ext dest s atts) mdPath
                     (textEncode ext (trim (renderToText ext mdTree))))
                  htmlPath
                  (textEncode ext (template (pageName, cfg, renderMarkdownToHtml ext mdTree)))"
  using assms
  by (auto simp: generatePage_def cleanMarkdown_def Let_def split: sum.splits)

text \<open>
  Claim C5, as the code has it.  \<^verbatim>\<open>cleanMarkdown\<close> rewrites \<^verbatim>\<open>mdTree\<close> in place, and
  \<^verbatim>\<open>generatePage\<close> hands the same object to the renderer afterwards: the body written at
  the page's path is the rendering of the rewritten tree, the tree whose text is the
  markdown mirror.
\<close>

theorem html_rendered_from_rewritten_tree:
  assumes "generatePage ext s pageName htmlPath mdPath publishedPages cfg dest template = Inr s'"
  shows "\<exists>src mdTree.
           readPage s pageName = Inr src \<and>
           cleanTree cfg publishedPages (parseMarkdown ext src) = Inr mdTree \<and>
           readAttachment s' htmlPath =
             Inr (textEncode ext (template (pageName, cfg, renderMarkdownToHtml ext mdTree))) \<and>
           (mdPath \<noteq> htmlPath \<longrightarrow>
              readAttachment s' mdPath = Inr (textEncode ext (trim (renderToText ext mdTree))))"
proof -
  from generatePage_result[OF assms] obtain src mdTree atts where
    r: "readPage s pageName = Inr src"
    and c: "cleanTree cfg publishedPages (parseMarkdown ext src) = Inr mdTree"
    and res: "s' = writeAttachment ext
                  (writeAttachment ext (copyAttachments ext dest s atts) mdPath
                     (textEncode ext (trim (renderToText ext mdTree))))
                  htmlPath
                  (textEncode ext (template (pageName, cfg, renderMarkdownToHtml ext mdTree)))"
    by blast
  have html: "readAttachment s' htmlPath =
          Inr (textEncode ext (template (pageName, cfg, renderMarkdownToHtml ext mdTree)))"
    unfolding res by (simp add: read_write)
  have md: "mdPath \<noteq> htmlPath \<longrightarrow>
          readAttachment s' mdPath = Inr (textEncode ext (trim (renderToText ext mdTree)))"
    unfolding res by (simp add: read_write)
  from r c html md show ?thesis by blast
qed

lemmas page_defs = generatePage_def cleanMarkdown_def trim_def isSpace_def Let_def

lemma sample_page_A:
  "generatePage sampleExt sampleSpace (JString ''A'') ''_public/A/index.html'' ''_public/A.md''
     [JString ''A''] defaultPublishConfig ''_public'' (handlebarsCompile sampleExt ''{{body}}'') =
   Inr samplePageStore"
  by (simp add: page_defs clean_defs collect_defs store_defs fixture_defs suffix_to_prefix
        samplePageStore_def)

theorem html_rendered_from_rewritten_tree_witness:
  "generatePage sampleExt sampleSpace (JString ''A'') ''_public/A/index.html'' ''_public/A.md''
     [JString ''A''] defaultPublishConfig ''_public'' (handlebarsCompile sampleExt ''{{body}}'') =
   Inr samplePageStore \<and>
   readPage sampleSpace (JString ''A'') = Inr ''doc'' \<and>
   cleanTree defaultPublishConfig [JString ''A''] (parseMarkdown sampleExt ''doc'') =
     Inr (documentNode [paragraphNode [urlNode ''img.png'', urlNode ''https://example.com/x.png'',
            urlNode ''missing.png'']])"
proof -
  note run = sample_page_A
  from html_rendered_from_rewritten_tree[OF run]
  have "readPage sampleSpace (JString ''A'') = Inr ''doc''"
    by (auto simp: readPage_def sampleSpace_def split: option.splits)
  moreover have "cleanTree defaultPublishConfig [JString ''A''] (parseMarkdown sampleExt ''doc'') =
     Inr (documentNode [paragraphNode [urlNode ''img.png'', urlNode ''https://example.com/x.png'',
            urlNode ''missing.png'']])"
    by (simp add: clean_defs fixture_defs)
  ultimately show ?thesis using run by simp
qed

text \<open>
  The page \<open>A\<close> holds a comment.  The body written for it has no comment, while the
  rendering of the tree as parsed has one.
\<close>

theorem html_from_original_tree_counterexample:
  "generatePage sampleExt sampleSpace (JString ''A'') ''_public/A/index.html'' ''_public/A.md''
     [JString ''A''] defaultPublishConfig ''_public'' (handlebarsCompile sampleExt ''{{body}}'') =
     Inr samplePageStore \<and>
   readAttachment samplePageStore ''_public/A/index.html'' =
     Inr ''img.pnghttps://example.com/x.pngmissing.png'' \<and>
   readPage sampleSpace (JString ''A'') = Inr ''doc'' \<and>
   textEncode sampleExt (handlebarsCompile sampleExt ''{{body}}''
      (JString ''A'', defaultPublishConfig,
       renderMarkdownToHtml sampleExt (parseMarkdown sampleExt ''doc''))) =
     ''<!-- todo -->img.pnghttps://example.com/x.pngmissing.png''"
  by (simp add: sample_page_A) (simp add: store_defs fixture_defs samplePageStore_def)

section \<open>Properties of the pipeline driver\<close>

lemma clean_fold:
  "sp_attachments (foldl (cleanStep dest) s ms) =
     filter (\<lambda>e. \<not> (fst e \<in> fm_name ` set ms \<and> startsWith (fst e) dest)) (sp_attachments s)"
proof (induction ms arbitrary: s)
  case Nil
  then show ?case by simp
next
  case (Cons m ms)
  have step: "sp_attachments (cleanStep dest s m) =
      filter (\<lambda>e. \<not> (fst e = fm_name m \<and> startsWith (fst e) dest)) (sp_attachments s)"
    by (auto simp: cleanStep_def deleteAttachment_def AList.delete_eq intro: filter_cong
             simp: filter_id_conv)
  have "sp_attachments (foldl (cleanStep dest) (cleanStep dest s m) ms) =
      filter (\<lambda>e. \<not> (fst e \<in> fm_name ` set ms \<and> startsWith (fst e) dest))
        (sp_attachments (cleanStep dest s m))"
    by (rule Cons.IH)
  also have "\<dots> = filter (\<lambda>e. \<not> (fst e \<in> fm_name ` set (m # ms) \<and> startsWith (fst e) dest))
        (sp_attachments s)"
    unfolding step by (auto intro: filter_cong)
  finally show ?case by simp
qed

lemma cleanDestination_eq:
  "sp_attachments (cleanDestination dest s) =
     filter (\<lambda>e. \<not> startsWith (fst e) dest) (sp_attachments s)"
proof -
  have names: "fm_name ` set (listAttachments s) = fst ` set (sp_attachments s)"
    by (force simp: listAttachments_def fileMeta_def)
  have "sp_attachments (cleanDestination dest s) =
      filter (\<lambda>e. \<not> (fst e \<in> fst ` set (sp_attachments s) \<and> startsWith (fst e) dest))
        (sp_attachments s)"
    unfolding cleanDestination_def clean_fold names ..
  also have "\<dots> = filter (\<lambda>e. \<not> startsWith (fst e) dest) (sp_attachments s)"
    by (rule filter_cong) auto
  finally show ?thesis .
qed

lemma pages_clean_fold:
  "sp_pages (foldl (cleanStep dest) s ms) = sp_pages s \<and>
   sp_pageText (foldl (cleanStep dest) s ms) = sp_pageText s"
proof (induction ms arbitrary: s)
  case Nil
  then show ?case by simp
next
  case (Cons m ms)
  have "sp_pages (cleanStep dest s m) = sp_pages s \<and>
        sp_pageText (cleanStep dest s m) = sp_pageText s"
    by (simp add: cleanStep_def pages_delete)
  with Cons.IH[of "cleanStep dest s m"] show ?case by simp
qed

lemma pages_cleanDestination:
  "sp_pages (cleanDestination dest s) = sp_pages s \<and>
   sp_pageText (cleanDestination dest s) = sp_pageText s"
  by (simp add: cleanDestination_def pages_clean_fold)

lemma manifest_fold:
  "foldl (manifestStep dest) acc listing =
     acc @ map (\<lambda>a. \<lparr>fm_name = drop (length dest + 1) (fm_name a), fm_size = fm_size a,
                     fm_contentType = fm_contentType a, fm_lastModified = fm_lastModified a,
                     fm_perm = ''ro''\<rparr>)
             (filter (\<lambda>a. startsWith (fm_name a) dest \<and> fm_contentType a \<noteq> ''text/html'') listing)"
  by (induction listing arbitrary: acc) (simp_all add: manifestStep_def)

lemma publishedFiles_eq:
  "publishedFiles dest listing =
     map (\<lambda>a. \<lparr>fm_name = drop (length dest + 1) (fm_name a), fm_size = fm_size a,
               fm_contentType = fm_contentType a, fm_lastModified = fm_lastModified a,
               fm_perm = ''ro''\<rparr>)
       (filter (\<lambda>a. startsWith (fm_name a) dest \<and> fm_contentType a \<noteq> ''text/html'') listing)"
  by (simp add: publishedFiles_def manifest_fold)

text \<open>
  Claim C10.  Cleaning the destination keeps exactly the attachments whose names do not
  start with the destination string: \<open>_publicity/img.png\<close> starts with \<open>_public\<close>, is
  not under \<open>_public/\<close>, and is deleted.  The manifest loop lists exactly the attachments
  of the listing that pass the same test and are not of content type \<open>text/html\<close>, each
  with its name cut by the length of the destination plus one.
\<close>

theorem prefix_test_decides_membership:
  "sp_attachments (cleanDestination dest s) =
     filter (\<lambda>e. \<not> startsWith (fst e) dest) (sp_attachments s) \<and>
   startsWith ''_publicity/img.png'' destDir \<and>
   \<not> startsWith ''_publicity/img.png'' (destDir @ ''/'') \<and>
   ''_publicity/img.png'' \<notin> fst ` set (sp_attachments (cleanDestination destDir s)) \<and>
   publishedFiles dest listing =
     map (\<lambda>a. \<lparr>fm_name = drop (length dest + 1) (fm_name a), fm_size = fm_size a,
               fm_contentType = fm_contentType a, fm_lastModified = fm_lastModified a,
               fm_perm = ''ro''\<rparr>)
       (filter (\<lambda>a. startsWith (fm_name a) dest \<and> fm_contentType a \<noteq> ''text/html'') listing)"
proof -
  have a: "startsWith ''_publicity/img.png'' destDir"
    and b: "\<not> startsWith ''_publicity/img.png'' (destDir @ ''/'')"
    by (simp_all add: startsWith_def destDir_def)
  have "''_publicity/img.png'' \<notin> fst ` set (sp_attachments (cleanDestination destDir s))"
    using a by (auto simp: cleanDestination_eq)
  with a b show ?thesis by (simp add: cleanDestination_eq publishedFiles_eq)
qed

theorem prefix_test_decides_membership_witness:
  "map fst (sp_attachments sampleSpace) = [''img.png'', ''_public/old.md'', ''_publicity/img.png''] \<and>
   map fst (sp_attachments (cleanDestination destDir sampleSpace)) = [''img.png''] \<and>
   publishedFiles destDir (listAttachments sampleSpace) =
     [\<lparr>fm_name = ''old.md'', fm_size = 3, fm_contentType = ''text/markdown'', fm_lastModified = 3,
       fm_perm = ''ro''\<rparr>,
      \<lparr>fm_name = ''ty/img.png'', fm_size = 3, fm_contentType = ''image/png'', fm_lastModified = 3,
       fm_perm = ''ro''\<rparr>]"
  using prefix_test_decides_membership[of destDir sampleSpace "listAttachments sampleSpace"]
  by (simp add: startsWith_def destDir_def sampleSpace_def sampleFile_def listAttachments_def
        fileMeta_def)

lemma destClean_write:
  assumes "destClean dest s" and "startsWith n (dest @ ''/'')"
  shows "destClean dest (writeAttachment ext s n d)"
proof -
  have "set (sp_attachments (writeAttachment ext s n d)) \<subseteq>
          insert (n, (storedAs ext n d)\<lparr>sf_data := d\<rparr>) (set (sp_attachments s))"
    by (simp add: writeAttachment_def set_alist_update)
  with assms show ?thesis by (auto simp: destClean_def list_all_iff)
qed

lemma destClean_copy:
  "destClean dest s \<Longrightarrow> destClean dest (copyAttachments ext dest s atts)"
proof (induction atts arbitrary: s)
  case Nil
  then show ?case by (simp add: copyAttachments_def)
next
  case (Cons a atts)
  have "startsWith (dest @ ''/'' @ a) (dest @ ''/'')"
    by (simp add: startsWith_def)
  with Cons.prems have "destClean dest (copyAttachment ext dest s a)"
    by (auto simp: copyAttachment_def destClean_write split: sum.splits)
  from Cons.IH[OF this] show ?case by (simp add: copyAttachments_def)
qed

lemma destClean_generatePage:
  assumes "destClean dest s"
    and "startsWith htmlPath (dest @ ''/'')" and "startsWith mdPath (dest @ ''/'')"
    and "generatePage ext s pageName htmlPath mdPath pub cfg dest template = Inr s'"
  shows "destClean dest s'"
proof -
  from generatePage_result[OF assms(4)] obtain mdTree atts where
    res: "s' = writeAttachment ext
                  (writeAttachment ext (copyAttachments ext dest s atts) mdPath
                     (textEncode ext (trim (renderToText ext mdTree))))
                  htmlPath
                  (textEncode ext (template (pageName, cfg, renderMarkdownToHtml ext mdTree)))"
    by blast
  show ?thesis unfolding res
    by (intro destClean_write destClean_copy assms(1,2,3))
qed

lemma pages_generatePage:
  assumes "generatePage ext s pageName htmlPath mdPath pub cfg dest template = Inr s'"
  shows "sp_pages s' = sp_pages s \<and> sp_pageText s' = sp_pageText s"
proof -
  from generatePage_result[OF assms] obtain mdTree atts where
    res: "s' = writeAttachment ext
                  (writeAttachment ext (copyAttachments ext dest s atts) mdPath
                     (textEncode ext (trim (renderToText ext mdTree))))
                  htmlPath
                  (textEncode ext (template (pageName, cfg, renderMarkdownToHtml ext mdTree)))"
    by blast
  show ?thesis unfolding res by (simp add: pages_write pages_copy)
qed

lemma generatePages_inv:
  "destClean dest s \<Longrightarrow> generatePages ext s ps pub cfg dest template = Inr s' \<Longrightarrow>
   destClean dest s' \<and> sp_pages s' = sp_pages s \<and> sp_pageText s' = sp_pageText s"
proof (induction ps arbitrary: s)
  case Nil
  then show ?case by simp
next
  case (Cons p ps)
  from Cons.prems(2) obtain s1 where
    one: "generatePage ext s p (dest @ ''/'' @ toStr (bigNumberText ext) p @ ''/index.html'')
            (dest @ ''/'' @ toStr (bigNumberText ext) p @ ''.md'') pub cfg dest template = Inr s1"
    and more: "generatePages ext s1 ps pub cfg dest template = Inr s'"
    by (auto split: sum.splits)
  have "destClean dest s1"
    by (rule destClean_generatePage[OF Cons.prems(1) _ _ one]) (simp_all add: startsWith_def)
  from Cons.IH[OF this more] pages_generatePage[OF one] show ?case by simp
qed

lemma generateIndexPage_inv:
  assumes "destClean dest s" and "generateIndexPage ext s pub cfg dest template = Inr s'"
  shows "destClean dest s' \<and> sp_pages s' = sp_pages s \<and> sp_pageText s' = sp_pageText s"
proof (cases "cfg_indexPage cfg")
  case None
  with assms show ?thesis by (simp add: generateIndexPage_def)
next
  case (Some indexPage)
  show ?thesis
  proof (cases "indexPage = []")
    case True
    with Some assms show ?thesis by (simp add: generateIndexPage_def)
  next
    case False
    with Some assms(2) have one:
      "generatePage ext s (JString indexPage) (dest @ ''/index.html'') (dest @ ''/index.md'')
         pub cfg dest template = Inr s'"
      by (simp add: generateIndexPage_def)
    have "destClean dest s'"
      by (rule destClean_generatePage[OF assms(1) _ _ one]) (simp_all add: startsWith_def)
    with pages_generatePage[OF one] show ?thesis by simp
  qed
qed

lemma destClean_cleanDestination: "destClean dest (cleanDestination dest s)"
  by (simp add: destClean_def cleanDestination_eq list_all_iff)

lemma generateSite_result:
  assumes "generateSite ext s = Inr (cfg, cat, pub, s3)"
  shows "cfg = resolveConfig ext \<and>
         cat = fst (selectPages cfg (mapValues (allPageMap (listPages s)))) \<and>
         pub = snd (selectPages cfg (mapValues (allPageMap (listPages s)))) \<and>
         destClean destDir s3 \<and> sp_pages s3 = sp_pages s \<and> sp_pageText s3 = sp_pageText s"
proof -
  define rc where "rc = resolveConfig ext"
  define s1 where "s1 = cleanDestination destDir s"
  obtain cat0 pub0 where sel: "selectPages rc (mapValues (allPageMap (listPages s))) = (cat0, pub0)"
    by (cases "selectPages rc (mapValues (allPageMap (listPages s)))")
  have unf: "generateSite ext s =
      (case loadTemplate ext rc of
         Inl e \<Rightarrow> Inl e
       | Inr pageTemplate \<Rightarrow>
           (case generatePages ext s1 pub0 pub0 rc destDir (handlebarsCompile ext pageTemplate) of
              Inl e \<Rightarrow> Inl e
            | Inr s2 \<Rightarrow>
                (case generateIndexPage ext s2 pub0 rc destDir (handlebarsCompile ext pageTemplate) of
                   Inl e \<Rightarrow> Inl e
                 | Inr s3 \<Rightarrow> Inr (rc, cat0, pub0, s3))))"
    unfolding generateSite_def Let_def rc_def[symmetric] s1_def[symmetric] sel by simp
  obtain pageTemplate where tpl: "loadTemplate ext rc = Inr pageTemplate"
    using assms unfolding unf by (cases "loadTemplate ext rc") simp_all
  let ?t = "handlebarsCompile ext pageTemplate"
  obtain s2 where pages: "generatePages ext s1 pub0 pub0 rc destDir ?t = Inr s2"
    using assms unfolding unf tpl by (cases "generatePages ext s1 pub0 pub0 rc destDir ?t") simp_all
  obtain s3' where idx: "generateIndexPage ext s2 pub0 rc destDir ?t = Inr s3'"
    using assms unfolding unf tpl
    by (cases "generateIndexPage ext s2 pub0 rc destDir ?t") (simp_all add: pages)
  have res: "Inr (rc, cat0, pub0, s3') = (Inr (cfg, cat, pub, s3) :: error + _)"
    using assms unfolding unf by (simp add: tpl pages idx)
  then have eqs: "cfg = rc" "cat = cat0" "pub = pub0" "s3 = s3'" by simp_all
  have c1: "destClean destDir s1" unfolding s1_def by (rule destClean_cleanDestination)
  from generatePages_inv[OF c1 pages]
  have i2: "destClean destDir s2" "sp_pages s2 = sp_pages s1" "sp_pageText s2 = sp_pageText s1"
    by simp_all
  from generateIndexPage_inv[OF i2(1) idx]
  have i3: "destClean destDir s3'" "sp_pages s3' = sp_pages s2" "sp_pageText s3' = sp_pageText s2"
    by simp_all
  have p1: "sp_pages s1 = sp_pages s" "sp_pageText s1 = sp_pageText s"
    unfolding s1_def using pages_cleanDestination[of destDir s] by simp_all
  show ?thesis
    unfolding eqs using sel i3 i2 p1 by (simp add: rc_def)
qed

lemma concat_map_append:
  "concat (map ((@) (a @ b)) ys) = concat (map (\<lambda>x. a @ b @ x) ys)"
  by (induction ys) simp_all

lemma joinWith_indent:
  "xs \<noteq> [] \<Longrightarrow> ind @ joinWith (sep @ ind) xs = joinWith sep (map (\<lambda>x. ind @ x) xs)"
  by (cases xs) (simp_all add: joinWith_def comp_def concat_map_append)

lemma jsonObject_layout:
  assumes "min 10 gap \<noteq> 0" and "ms \<noteq> []"
  shows "jsonObject gap d ms =
     ''{'' @ [CHR 0x0A] @
       joinWith ('','' @ [CHR 0x0A])
         (map (\<lambda>(k, v). jsonIndent gap (d + 1) @ jsonQuote k @ '': '' @ v) ms) @
       [CHR 0x0A] @ jsonIndent gap d @ ''}''"
proof -
  define I where "I = jsonIndent gap (d + 1)"
  define xs where "xs = map (\<lambda>(k, v). jsonQuote k @ '': '' @ v) ms"
  have ne: "xs \<noteq> []" using assms(2) by (simp add: xs_def)
  have fuse: "map (\<lambda>x. I @ x) xs = map (\<lambda>(k, v). I @ jsonQuote k @ '': '' @ v) ms"
    by (simp add: xs_def case_prod_unfold)
  have "jsonObject gap d ms =
      ''{'' @ [CHR 0x0A] @ (I @ joinWith (('','' @ [CHR 0x0A]) @ I) xs) @
      [CHR 0x0A] @ jsonIndent gap d @ ''}''"
    using assms(1) by (simp add: jsonObject_def I_def xs_def min_def split: if_splits)
  also have "I @ joinWith (('','' @ [CHR 0x0A]) @ I) xs =
      joinWith ('','' @ [CHR 0x0A]) (map (\<lambda>x. I @ x) xs)"
    by (rule joinWith_indent[OF ne])
  finally have eq: "jsonObject gap d ms =
      ''{'' @ [CHR 0x0A] @ joinWith ('','' @ [CHR 0x0A]) (map (\<lambda>x. I @ x) xs) @
      [CHR 0x0A] @ jsonIndent gap d @ ''}''" .
  from eq[unfolded fuse] show ?thesis unfolding I_def .
qed

lemma jsonStringify_layout:
  assumes "min 10 gap \<noteq> 0" and "files \<noteq> []"
  shows "jsonStringify files gap =
     ''['' @ [CHR 0x0A] @
       joinWith ('','' @ [CHR 0x0A])
         (map (\<lambda>m. jsonIndent gap 1 @ jsonObject gap 1 (jsonMembers m)) files) @
       [CHR 0x0A] @ '']''"
proof -
  define I where "I = jsonIndent gap 1"
  define xs where "xs = map (\<lambda>m. jsonObject gap 1 (jsonMembers m)) files"
  have ne: "xs \<noteq> []" using assms(2) by (simp add: xs_def)
  have fuse: "map (\<lambda>x. I @ x) xs = map (\<lambda>m. I @ jsonObject gap 1 (jsonMembers m)) files"
    by (simp add: xs_def)
  have "jsonStringify files gap =
      ''['' @ [CHR 0x0A] @ (I @ joinWith (('','' @ [CHR 0x0A]) @ I) xs) @ [CHR 0x0A] @ '']''"
    using assms by (simp add: jsonStringify_def I_def xs_def min_def split: if_splits)
  also have "I @ joinWith (('','' @ [CHR 0x0A]) @ I) xs =
      joinWith ('','' @ [CHR 0x0A]) (map (\<lambda>x. I @ x) xs)"
    by (rule joinWith_indent[OF ne])
  finally have eq: "jsonStringify files gap =
      ''['' @ [CHR 0x0A] @ joinWith ('','' @ [CHR 0x0A]) (map (\<lambda>x. I @ x) xs) @
      [CHR 0x0A] @ '']''" .
  from eq[unfolded fuse] show ?thesis unfolding I_def .
qed

lemma jsonIndent_two: "jsonIndent 2 1 = ''  ''" "jsonIndent 2 (1 + 1) = ''    ''"
  by (simp_all add: jsonIndent_def numeral_eq_Suc)

lemma jsonStringify_two:
  "jsonStringify files 2 =
     (if files = [] then ''[]''
      else ''['' @ [CHR 0x0A] @
           joinWith ('','' @ [CHR 0x0A])
             (map (\<lambda>m. ''  '' @ ''{'' @ [CHR 0x0A] @
                         joinWith ('','' @ [CHR 0x0A])
                           (map (\<lambda>(k, v). ''    '' @ jsonQuote k @ '': '' @ v) (jsonMembers m)) @
                         [CHR 0x0A] @ ''  '' @ ''}'')
                files) @
           [CHR 0x0A] @ '']'')"
proof (cases "files = []")
  case True
  then show ?thesis by (simp add: jsonStringify_def)
next
  case False
  have gap: "min 10 (2::nat) \<noteq> 0" by simp
  have mem: "\<And>m. jsonMembers m \<noteq> []" by (simp add: jsonMembers_def)
  show ?thesis
    unfolding jsonStringify_layout[OF gap False] jsonObject_layout[OF gap mem] jsonIndent_two
    using False by simp
qed

lemma under_dest_name:
  "startsWith n (dest @ ''/'') \<Longrightarrow> n = dest @ ''/'' @ drop (length dest + 1) n"
  by (auto simp: startsWith_def prefix_def)

lemma manifest_entry_sound:
  assumes clean: "destClean dest s"
    and e: "e \<in> set (publishedFiles dest (listAttachments s))"
  shows "fm_contentType e \<noteq> ''text/html'' \<and> fm_perm e = ''ro'' \<and>
         (\<exists>a \<in> set (listAttachments s).
            fm_name a = dest @ ''/'' @ fm_name e \<and> fm_size a = fm_size e \<and>
            fm_contentType a = fm_contentType e \<and> fm_lastModified a = fm_lastModified e)"
proof -
  from e obtain a where a: "a \<in> set (listAttachments s)" "startsWith (fm_name a) dest"
    "fm_contentType a \<noteq> ''text/html''"
    and eq: "e = \<lparr>fm_name = drop (length dest + 1) (fm_name a), fm_size = fm_size a,
               fm_contentType = fm_contentType a, fm_lastModified = fm_lastModified a,
               fm_perm = ''ro''\<rparr>"
    unfolding publishedFiles_eq by auto
  from a(1) obtain x where x: "x \<in> set (sp_attachments s)" "a = fileMeta x"
    by (auto simp: listAttachments_def)
  then have "fm_name a = fst x" by (simp add: fileMeta_def)
  with clean x(1) a(2) have "startsWith (fm_name a) (dest @ ''/'')"
    by (auto simp: destClean_def list_all_iff)
  from under_dest_name[OF this] have "fm_name a = dest @ ''/'' @ fm_name e"
    unfolding eq by simp
  with a(1,3) show ?thesis unfolding eq by auto
qed

text \<open>
  Claim C8.  Let a run reach the manifest with \<open>generateIndexJson\<close> set.  Then the run
  ends with \<open>index.json\<close> under the destination holding the encoded
  \<^verbatim>\<open>JSON.stringify(publishedFiles, null, 2)\<close>; every entry has a content type other than
  \<open>text/html\<close> and the permission \<open>ro\<close>, and comes from a listed attachment whose name
  is the destination, a slash, and the entry's name, with the same size, content type
  and modification time.  With the indentation 2 the text puts each entry on lines
  of its own, the braces after two spaces and the members after four.
\<close>

theorem manifest_entries:
  assumes "generateSite ext s = Inr (cfg, cat, pub, s3)"
    and "flagSet (cfg_generateIndexJson cfg)"
  shows "publishAll ext s = Inr (writeManifest ext destDir s3, cat) \<and>
         readAttachment (writeManifest ext destDir s3) (destDir @ ''/index.json'') =
           Inr (textEncode ext (jsonStringify (publishedFiles destDir (listAttachments s3)) 2)) \<and>
         (\<forall>e \<in> set (publishedFiles destDir (listAttachments s3)).
            fm_contentType e \<noteq> ''text/html'' \<and> fm_perm e = ''ro'' \<and>
            (\<exists>a \<in> set (listAttachments s3).
               fm_name a = destDir @ ''/'' @ fm_name e \<and> fm_size a = fm_size e \<and>
               fm_contentType a = fm_contentType e \<and> fm_lastModified a = fm_lastModified e)) \<and>
         jsonStringify files 2 =
           (if files = [] then ''[]''
            else ''['' @ [CHR 0x0A] @
                 joinWith ('','' @ [CHR 0x0A])
                   (map (\<lambda>m. ''  '' @ ''{'' @ [CHR 0x0A] @
                               joinWith ('','' @ [CHR 0x0A])
                                 (map (\<lambda>(k, v). ''    '' @ jsonQuote k @ '': '' @ v) (jsonMembers m)) @
                               [CHR 0x0A] @ ''  '' @ ''}'')
                      files) @
                 [CHR 0x0A] @ '']'')"
proof -
  have run: "publishAll ext s = Inr (writeManifest ext destDir s3, cat)"
    using assms by (simp add: publishAll_def)
  have written: "readAttachment (writeManifest ext destDir s3) (destDir @ ''/index.json'') =
           Inr (textEncode ext (jsonStringify (publishedFiles destDir (listAttachments s3)) 2))"
    by (simp add: writeManifest_def read_write)
  have clean: "destClean destDir s3"
    using generateSite_result[OF assms(1)] by simp
  have entries: "\<forall>e \<in> set (publishedFiles destDir (listAttachments s3)).
            fm_contentType e \<noteq> ''text/html'' \<and> fm_perm e = ''ro'' \<and>
            (\<exists>a \<in> set (listAttachments s3).
               fm_name a = destDir @ ''/'' @ fm_name e \<and> fm_size a = fm_size e \<and>
               fm_contentType a = fm_contentType e \<and> fm_lastModified a = fm_lastModified e)"
    using manifest_entry_sound[OF clean] by blast
  from run written entries jsonStringify_two[of files] show ?thesis by blast
qed

lemma normalisedEntry_fields:
  "pm_name (normalisedEntry p) = pm_name p \<and> pm_tags (normalisedEntry p) = pm_tags p"
  by (simp add: normalisedEntry_def split: jsval.splits option.splits share.splits)

lemma selectPages_catalog:
  "fst (selectPages cfg pages) =
     (if flagSet (cfg_publishAll cfg) then pages else map normalisedEntry pages)"
  by (simp add: selectPages_def selectLoop_catalog)

lemma publishAll_result:
  assumes "publishAll ext s = Inr (s', cat)"
  shows "cat = fst (selectPages (resolveConfig ext) (mapValues (allPageMap (listPages s)))) \<and>
         sp_pages s' = sp_pages s \<and> sp_pageText s' = sp_pageText s"
proof (cases "generateSite ext s")
  case (Inl e)
  with assms show ?thesis by (simp add: publishAll_def)
next
  case (Inr r)
  obtain cfg cat0 pub s3 where r: "r = (cfg, cat0, pub, s3)" by (cases r)
  note site = generateSite_result[OF Inr[unfolded r]]
  show ?thesis
  proof (cases "flagSet (cfg_generateIndexJson cfg)")
    case True
    with assms Inr r have "s' = writeManifest ext destDir s3" "cat = cat0"
      by (simp_all add: publishAll_def)
    with site show ?thesis by (simp add: writeManifest_def pages_write)
  next
    case False
    with assms Inr r have "s' = s3" "cat = cat0"
      by (simp_all add: publishAll_def)
    with site show ?thesis by simp
  qed
qed

lemma last_listed:
  "map_of (rev (map (\<lambda>p. (pm_name p, p)) listed)) k = Some q \<longleftrightarrow>
     (\<exists>pre post. listed = pre @ q # post \<and> pm_name q = k \<and> k \<notin> pm_name ` set post)"
proof (induction listed rule: rev_induct)
  case Nil
  then show ?case by simp
next
  case (snoc x xs)
  show ?case
  proof (cases "k = pm_name x")
    case True
    have "(\<exists>pre post. xs @ [x] = pre @ q # post \<and> pm_name q = k \<and> k \<notin> pm_name ` set post)
            \<longleftrightarrow> q = x"
    proof
      assume "\<exists>pre post. xs @ [x] = pre @ q # post \<and> pm_name q = k \<and> k \<notin> pm_name ` set post"
      then obtain pre post where e: "xs @ [x] = pre @ q # post" "k \<notin> pm_name ` set post"
        by blast
      show "q = x"
      proof (cases post rule: rev_cases)
        case Nil
        with e(1) show ?thesis by simp
      next
        case (snoc ys y)
        with e(1) have "y = x" by simp
        with snoc e(2) True show ?thesis by simp
      qed
    next
      assume "q = x"
      with True have "xs @ [x] = xs @ q # [] \<and> pm_name q = k \<and> k \<notin> pm_name ` set []" by simp
      then show "\<exists>pre post. xs @ [x] = pre @ q # post \<and> pm_name q = k \<and> k \<notin> pm_name ` set post"
        by blast
    qed
    with True show ?thesis by auto
  next
    case False
    have "(\<exists>pre post. xs @ [x] = pre @ q # post \<and> pm_name q = k \<and> k \<notin> pm_name ` set post)
            \<longleftrightarrow> (\<exists>pre post. xs = pre @ q # post \<and> pm_name q = k \<and> k \<notin> pm_name ` set post)"
    proof
      assume "\<exists>pre post. xs @ [x] = pre @ q # post \<and> pm_name q = k \<and> k \<notin> pm_name ` set post"
      then obtain pre post where e: "xs @ [x] = pre @ q # post" "pm_name q = k"
        "k \<notin> pm_name ` set post"
        by blast
      show "\<exists>pre post. xs = pre @ q # post \<and> pm_name q = k \<and> k \<notin> pm_name ` set post"
      proof (cases post rule: rev_cases)
        case Nil
        with e(1) have "q = x" by simp
        with e(2) False show ?thesis by simp
      next
        case (snoc ys y)
        with e(1) have "xs = pre @ q # ys" by simp
        moreover from snoc e(3) have "k \<notin> pm_name ` set ys" by simp
        ultimately show ?thesis using e(2) by blast
      qed
    next
      assume "\<exists>pre post. xs = pre @ q # post \<and> pm_name q = k \<and> k \<notin> pm_name ` set post"
      then obtain pre post where e: "xs = pre @ q # post" "pm_name q = k"
        "k \<notin> pm_name ` set post"
        by blast
      with False have "xs @ [x] = pre @ q # (post @ [x]) \<and> pm_name q = k \<and>
          k \<notin> pm_name ` set (post @ [x])"
        by simp
      then show "\<exists>pre post. xs @ [x] = pre @ q # post \<and> pm_name q = k \<and> k \<notin> pm_name ` set post"
        by blast
    qed
    with False snoc.IH show ?thesis by simp
  qed
qed

lemma allPageMap_fold_map_of:
  "map_of (foldl (\<lambda>m pm. AList.update (pm_name pm) pm m) m ps) =
     map_of (rev (map (\<lambda>p. (pm_name p, p)) ps) @ m)"
proof (induction ps arbitrary: m)
  case Nil
  then show ?case by simp
next
  case (Cons p ps)
  show ?case
    unfolding foldl_Cons Cons.IH
    by (rule ext) (simp add: map_add_def update_conv' split: option.splits)
qed

lemma allPageMap_distinct_fold:
  "distinct (map fst m) \<Longrightarrow>
   distinct (map fst (foldl (\<lambda>m pm. AList.update (pm_name pm) pm m) m ps))"
  by (induction ps arbitrary: m) (simp_all add: distinct_update)

lemma allPageMap_keyed: "e \<in> set (allPageMap listed) \<Longrightarrow> pm_name (snd e) = fst e"
  using allPageMap_fold[of "[]" listed] by (simp add: allPageMap_def)

lemma allPageMap_distinct: "distinct (map pm_name (mapValues (allPageMap listed)))"
proof -
  have "map pm_name (mapValues (allPageMap listed)) = map fst (allPageMap listed)"
    by (simp add: mapValues_def allPageMap_keyed)
  moreover have "distinct (map fst (allPageMap listed))"
    using allPageMap_distinct_fold[of "[]" listed] by (simp add: allPageMap_def)
  ultimately show ?thesis by simp
qed

lemma allPageMap_values:
  "set (mapValues (allPageMap listed)) =
     {q. \<exists>pre post. listed = pre @ q # post \<and> pm_name q \<notin> pm_name ` set post}"
proof -
  have d: "distinct (map fst (allPageMap listed))"
    using allPageMap_distinct_fold[of "[]" listed] by (simp add: allPageMap_def)
  have m: "map_of (allPageMap listed) = map_of (rev (map (\<lambda>p. (pm_name p, p)) listed))"
    using allPageMap_fold_map_of[of "[]" listed] by (simp add: allPageMap_def)
  have "q \<in> set (mapValues (allPageMap listed)) \<longleftrightarrow>
          (\<exists>pre post. listed = pre @ q # post \<and> pm_name q \<notin> pm_name ` set post)" for q
  proof -
    have "q \<in> set (mapValues (allPageMap listed)) \<longleftrightarrow> (pm_name q, q) \<in> set (allPageMap listed)"
    proof
      assume "q \<in> set (mapValues (allPageMap listed))"
      then obtain e where e: "e \<in> set (allPageMap listed)" "snd e = q"
        by (auto simp: mapValues_def)
      with allPageMap_keyed[OF e(1)] have "e = (pm_name q, q)" by (cases e) simp
      with e(1) show "(pm_name q, q) \<in> set (allPageMap listed)" by simp
    next
      assume "(pm_name q, q) \<in> set (allPageMap listed)"
      then have "snd (pm_name q, q) \<in> snd ` set (allPageMap listed)" by (rule imageI)
      then show "q \<in> set (mapValues (allPageMap listed))" by (simp add: mapValues_def)
    qed
    also have "\<dots> \<longleftrightarrow> map_of (allPageMap listed) (pm_name q) = Some q"
      using d by simp
    also have "\<dots> \<longleftrightarrow> (\<exists>pre post. listed = pre @ q # post \<and> pm_name q \<notin> pm_name ` set post)"
      unfolding m last_listed by blast
    finally show ?thesis .
  qed
  then show ?thesis by blast
qed

text \<open>
  Claim C9, as the code has it.  The entries the pipeline works on are the values of the
  name map built from the listing: they have distinct names, and they are the listed
  entries that no later listed entry shares the name of.  With \<open>publishAll\<close> set, selection
  leaves these entries as they are.  Otherwise it replaces, in each of them whose name is
  a string, a truthy scalar share marker by the one-element array of it, and changes
  nothing else: names and tags stay.  The entries at the end of a run are those that
  selection left, and the storage layer's own catalog and page texts are untouched.
\<close>

theorem catalog_entries_after_run:
  "fst (selectPages cfg pages) =
     (if flagSet (cfg_publishAll cfg) then pages else map normalisedEntry pages) \<and>
   pm_name (normalisedEntry p) = pm_name p \<and>
   pm_tags (normalisedEntry p) = pm_tags p \<and>
   distinct (map pm_name (mapValues (allPageMap listed))) \<and>
   set (mapValues (allPageMap listed)) =
     {q. \<exists>pre post. listed = pre @ q # post \<and> pm_name q \<notin> pm_name ` set post} \<and>
   (\<forall>s' cat. publishAll ext s = Inr (s', cat) \<longrightarrow>
      cat = (if flagSet (cfg_publishAll (resolveConfig ext))
             then mapValues (allPageMap (listPages s))
             else map normalisedEntry (mapValues (allPageMap (listPages s)))) \<and>
      sp_pages s' = sp_pages s \<and> sp_pageText s' = sp_pageText s)"
proof -
  have "cat = (if flagSet (cfg_publishAll (resolveConfig ext))
             then mapValues (allPageMap (listPages s))
             else map normalisedEntry (mapValues (allPageMap (listPages s)))) \<and>
      sp_pages s' = sp_pages s \<and> sp_pageText s' = sp_pageText s"
    if "publishAll ext s = Inr (s', cat)" for s' cat
    using publishAll_result[OF that]
      selectPages_catalog[of "resolveConfig ext" "mapValues (allPageMap (listPages s))"]
    by simp
  then show ?thesis
    using selectPages_catalog[of cfg pages] normalisedEntry_fields[of p]
      allPageMap_distinct[of listed] allPageMap_values[of listed]
    by blast
qed

lemmas driver_defs = generateSite_def resolveConfig_def loadTemplate_def generateIndexPage_def
  cleanDestination_def cleanStep_def destDir_def

lemma sample_catalog_selected:
  "selectPages defaultPublishConfig (mapValues (allPageMap (listPages sampleSpace))) =
     (sampleSelected, [JString ''A''])"
  by (simp add: select_defs catalog_defs listPages_def sampleSpace_def sampleSelected_def)

lemma sample_cleaned:
  "cleanDestination ''_public'' sampleSpace =
     sampleSpace\<lparr>sp_attachments := [(''img.png'', sampleFile ''PNG'' ''image/png'')]\<rparr>"
  by (simp add: cleanDestination_def cleanStep_def startsWith_def listAttachments_def fileMeta_def
        deleteAttachment_def sampleSpace_def sampleFile_def)

lemma sample_page_generated:
  "generatePage sampleExt (cleanDestination ''_public'' sampleSpace) (JString ''A'')
     ''_public/A/index.html'' ''_public/A.md'' [JString ''A''] defaultPublishConfig ''_public''
     (handlebarsCompile sampleExt ''{{body}}'') = Inr sampleSite"
  unfolding sample_cleaned
  by (simp add: page_defs clean_defs collect_defs store_defs fixture_defs suffix_to_prefix
        sampleSite_def)

lemma sample_site:
  "generateSite sampleExt sampleSpace =
     Inr (defaultPublishConfig, sampleSelected, [JString ''A''], sampleSite)"
proof -
  have cfg: "resolveConfig sampleExt = defaultPublishConfig"
    by (simp add: resolveConfig_def sampleExt_def)
  have tpl: "loadTemplate sampleExt defaultPublishConfig = Inr ''{{body}}''"
    by (simp add: loadTemplate_def sampleExt_def defaultPublishConfig_def)
  have idx: "\<And>s t. generateIndexPage sampleExt s [JString ''A''] defaultPublishConfig ''_public'' t = Inr s"
    by (simp add: generateIndexPage_def defaultPublishConfig_def)
  show ?thesis
    unfolding generateSite_def Let_def cfg sample_catalog_selected destDir_def
    by (simp add: tpl sample_page_generated idx)
qed

theorem manifest_entries_witness:
  "generateSite sampleExt sampleSpace =
     Inr (defaultPublishConfig, sampleSelected, [JString ''A''], sampleSite) \<and>
   flagSet (cfg_generateIndexJson defaultPublishConfig) \<and>
   publishAll sampleExt sampleSpace = Inr (writeManifest sampleExt destDir sampleSite, sampleSelected) \<and>
   map fm_name (listAttachments sampleSite) =
     [''img.png'', ''_public/img.png'', ''_public/A.md'', ''_public/A/index.html''] \<and>
   publishedFiles destDir (listAttachments sampleSite) =
     [\<lparr>fm_name = ''img.png'', fm_size = 3, fm_contentType = ''text/plain'', fm_lastModified = 7,
       fm_perm = ''ro''\<rparr>,
      \<lparr>fm_name = ''A.md'', fm_size = 43, fm_contentType = ''text/plain'', fm_lastModified = 7,
       fm_perm = ''ro''\<rparr>] \<and>
   readAttachment (writeManifest sampleExt destDir sampleSite) ''_public/index.json'' =
     Inr (jsonStringify
       [\<lparr>fm_name = ''img.png'', fm_size = 3, fm_contentType = ''text/plain'', fm_lastModified = 7,
         fm_perm = ''ro''\<rparr>,
        \<lparr>fm_name = ''A.md'', fm_size = 43, fm_contentType = ''text/plain'', fm_lastModified = 7,
         fm_perm = ''ro''\<rparr>] 2) \<and>
   take 24 (jsonStringify
       [\<lparr>fm_name = ''img.png'', fm_size = 3, fm_contentType = ''text/plain'', fm_lastModified = 7,
         fm_perm = ''ro''\<rparr>] 2) =
     ''['' @ [CHR 0x0A] @ ''  {'' @ [CHR 0x0A] @ ''    '' @ [CHR 0x22] @ ''name'' @ [CHR 0x22] @ '': '' @
     [CHR 0x22] @ ''img.p''"
proof -
  have flag: "flagSet (cfg_generateIndexJson defaultPublishConfig)"
    by (simp add: flagSet_def defaultPublishConfig_def)
  have names: "map fm_name (listAttachments sampleSite) =
     [''img.png'', ''_public/img.png'', ''_public/A.md'', ''_public/A/index.html'']"
    by (simp add: listAttachments_def fileMeta_def sampleSite_def)
  have files: "publishedFiles destDir (listAttachments sampleSite) =
     [\<lparr>fm_name = ''img.png'', fm_size = 3, fm_contentType = ''text/plain'', fm_lastModified = 7,
       fm_perm = ''ro''\<rparr>,
      \<lparr>fm_name = ''A.md'', fm_size = 43, fm_contentType = ''text/plain'', fm_lastModified = 7,
       fm_perm = ''ro''\<rparr>]"
    by (simp add: publishedFiles_def manifestStep_def startsWith_def destDir_def listAttachments_def
          fileMeta_def sampleSite_def sampleFile_def)
  have layout: "take 24 (jsonStringify
       [\<lparr>fm_name = ''img.png'', fm_size = 3, fm_contentType = ''text/plain'', fm_lastModified = 7,
         fm_perm = ''ro''\<rparr>] 2) =
     ''['' @ [CHR 0x0A] @ ''  {'' @ [CHR 0x0A] @ ''    '' @ [CHR 0x22] @ ''name'' @ [CHR 0x22] @ '': '' @
     [CHR 0x22] @ ''img.p''"
    by (simp add: jsonStringify_def jsonObject_def jsonMembers_def jsonIndent_def jsonQuote_def
          jsonEscape_def joinWith_def Let_def numeral_eq_Suc)
  from manifest_entries[OF sample_site flag, of "[]"] flag names files layout sample_site
  show ?thesis by (simp add: destDir_def sampleExt_def)
qed

theorem catalog_entries_after_run_witness:
  "publishAll sampleExt sampleSpace = Inr (writeManifest sampleExt destDir sampleSite, sampleSelected) \<and>
   \<not> flagSet (cfg_publishAll (resolveConfig sampleExt)) \<and>
   sp_pages (writeManifest sampleExt destDir sampleSite) = sp_pages sampleSpace \<and>
   listPages sampleSpace = sampleCatalog \<and>
   mapValues (allPageMap sampleCatalog) =
     [\<lparr>pm_name = JString ''A'', pm_tags = None, pm_share = Some (ShareScalar (JString ''pub''))\<rparr>,
      \<lparr>pm_name = JString ''B'', pm_tags = Some [''blog''], pm_share = None\<rparr>] \<and>
   sampleSelected = map normalisedEntry (mapValues (allPageMap (listPages sampleSpace))) \<and>
   map pm_name sampleSelected = [JString ''A'', JString ''B'']"
proof -
  have run: "publishAll sampleExt sampleSpace =
      Inr (writeManifest sampleExt destDir sampleSite, sampleSelected)"
    by (simp add: publishAll_def sample_site flagSet_def defaultPublishConfig_def)
  have off: "\<not> flagSet (cfg_publishAll (resolveConfig sampleExt))"
    by (simp add: resolveConfig_def sampleExt_def flagSet_def defaultPublishConfig_def)
  have listed: "listPages sampleSpace = sampleCatalog"
    by (simp add: listPages_def sampleSpace_def)
  have kept: "mapValues (allPageMap sampleCatalog) =
     [\<lparr>pm_name = JString ''A'', pm_tags = None, pm_share = Some (ShareScalar (JString ''pub''))\<rparr>,
      \<lparr>pm_name = JString ''B'', pm_tags = Some [''blog''], pm_share = None\<rparr>]"
    by (simp add: allPageMap_def mapValues_def sampleCatalog_def)
  have names: "map pm_name sampleSelected = [JString ''A'', JString ''B'']"
    by (simp add: sampleSelected_def)
  from catalog_entries_after_run[of defaultPublishConfig
      "mapValues (allPageMap (listPages sampleSpace))" "hd sampleSelected" sampleCatalog
      sampleExt sampleSpace]
    run off
  have "sampleSelected = map normalisedEntry (mapValues (allPageMap (listPages sampleSpace))) \<and>
        sp_pages (writeManifest sampleExt destDir sampleSite) = sp_pages sampleSpace"
    by simp
  with run off listed kept names show ?thesis by blast
qed

text \<open>
  The entry of page \<open>A\<close> comes out of a run with its share marker changed from the
  scalar \<open>pub\<close> to an array.
\<close>

theorem share_marker_reassigned_counterexample:
  "publishAll sampleExt sampleSpace =
     Inr (writeManifest sampleExt destDir sampleSite, sampleSelected) \<and>
   pm_name (hd sampleSelected) = JString ''A'' \<and>
   pm_share (hd sampleSelected) = Some (ShareArray [JString ''pub'']) \<and>
   pm_name (hd (mapValues (allPageMap (listPages sampleSpace)))) = JString ''A'' \<and>
   pm_share (hd (mapValues (allPageMap (listPages sampleSpace)))) =
     Some (ShareScalar (JString ''pub''))"
proof -
  have run: "publishAll sampleExt sampleSpace =
      Inr (writeManifest sampleExt destDir sampleSite, sampleSelected)"
    by (simp add: publishAll_def sample_site flagSet_def defaultPublishConfig_def)
  have cat: "mapValues (allPageMap (listPages sampleSpace)) =
      [\<lparr>pm_name = JString ''A'', pm_tags = None, pm_share = Some (ShareScalar (JString ''pub''))\<rparr>,
       \<lparr>pm_name = JString ''B'', pm_tags = Some [''blog''], pm_share = None\<rparr>]"
    by (simp add: allPageMap_def mapValues_def listPages_def sampleSpace_def sampleCatalog_def)
  show ?thesis unfolding cat using run by (simp add: sampleSelected_def)
qed

end
